theory Spec2Isabelle
  imports Complex_Main "HOL-Library.Log_Nat"
begin

section \<open>Data model (packages/core/src/types.ts)\<close>

text \<open>
  Every field of type \<open>number\<close> holds an IEEE 754 binary64 value. Amounts are integers in
  the smallest currency unit and are modelled as \<open>int\<close>: sums and differences of integers
  are exact in binary64 as long as they stay below \<open>2 ^ 53\<close> in magnitude, the range the
  solver is meant for. The tax rate is a finite binary64 value and is modelled by the
  rational number it denotes; a decimal literal of the source such as \<open>0.1\<close> denotes
  \<open>toDouble (1 / 10)\<close>, the nearest binary64 value (section ``Binary64 arithmetic''
  below). \<open>NaN\<close> and the infinities are not part of the model.
  The optional \<open>roundMode\<close> is an \<open>option\<close>; the optional \<open>error\<close> is an \<open>option\<close>
  too, \<open>None\<close> standing both for an absent field and for a field set to \<open>undefined\<close>.
\<close>

datatype RoundMode = Floor | Ceil | Round

record AdjustmentParams =
  subtotal :: int
  targetTotal :: int
  taxRate :: rat
  roundMode :: "RoundMode option"

record AdjustmentResult =
  discount :: int
  isValid :: bool
  adjustedSubtotal :: int
  taxAmount :: int
  finalTotal :: int
  error :: "string option"

type_synonym TaxFn = "int \<Rightarrow> rat \<Rightarrow> RoundMode \<Rightarrow> int"

section \<open>Binary64 arithmetic\<close>

text \<open>
  The operators \<open>*\<close>, \<open>+\<close> and \<open>/\<close> of the source compute the exact result and round it
  to the nearest binary64 value, ties to the value with an even significand. \<open>toDouble\<close>
  is that rounding on rationals: \<open>binade x\<close> is the exponent \<open>e\<close> with
  \<open>2 ^ e \<le> x < 2 ^ (e + 1)\<close> (computed from the bit lengths of numerator and
  denominator), the unit in the last place is \<open>2 ^ (e - 52)\<close>, and the value is rounded
  to a multiple of it. The exponent range is not bounded: overflow cannot arise from the
  amounts of the model, a product of an integer with a binary64 rate that falls into the
  subnormal range is a multiple of the smallest subnormal and hence exact in both, and the
  sum \<open>1 + taxRate\<close> and the quotient of the estimate have magnitude at least 1/2.
  The theorems below are stated for every rational rate, the binary64 ones included.
\<close>

definition binade :: "rat \<Rightarrow> int" where
  "binade x = (case quotient_of x of (a, b) \<Rightarrow>
     (let k = bitlen a - bitlen b in if 2 powi k \<le> x then k else k - 1))"

definition roundTiesToEven :: "rat \<Rightarrow> int" where
  "roundTiesToEven q =
     (let f = \<lfloor>q\<rfloor>; r = q - of_int f in
      if r < 1 / 2 then f else if 1 / 2 < r then f + 1
      else if even f then f else f + 1)"

definition toDouble :: "rat \<Rightarrow> rat" where
  "toDouble x =
     (if x = 0 then 0
      else (let ulp = 2 powi (binade \<bar>x\<bar> - 52) in
            sgn x * (of_int (roundTiesToEven (\<bar>x\<bar> / ulp)) * ulp)))"

section \<open>The tax primitive\<close>

text \<open>
  \<open>const taxAmount = amount * taxRate\<close> is a binary64 product. \<open>Math.floor\<close>,
  \<open>Math.ceil\<close> and \<open>Math.round\<close> are exact on it; the last one rounds a half towards
  plus infinity, that is \<open>Math.round x = \<lfloor>x + 1/2\<rfloor>\<close>. The \<open>default\<close> branch of the
  switch cannot be reached by a value of type \<open>RoundMode\<close>.
\<close>

definition applyTax :: TaxFn where
  "applyTax amount rate mode =
     (let taxAmount = toDouble (of_int amount * rate) in
      case mode of
        Floor \<Rightarrow> \<lfloor>taxAmount\<rfloor>
      | Ceil \<Rightarrow> \<lceil>taxAmount\<rceil>
      | Round \<Rightarrow> \<lfloor>taxAmount + 1 / 2\<rfloor>)"

section \<open>Rendering numbers in the diagnostic message\<close>

text \<open>
  The template literal of the ``closest total'' message prints its two integers in
  decimal, with a leading minus sign for a negative one.
\<close>

fun digits :: "nat \<Rightarrow> string" where
  "digits n = (if n < 10 then [char_of (48 + n)]
               else digits (n div 10) @ [char_of (48 + n mod 10)])"

definition showInt :: "int \<Rightarrow> string" where
  "showInt i = (if i < 0 then CHR ''-'' # digits (nat (- i)) else digits (nat i))"

definition closestMessage :: "int \<Rightarrow> int \<Rightarrow> string" where
  "closestMessage final target =
     ''Could not find exact adjustment. Closest total: '' @ showInt final
       @ '', target: '' @ showInt target"

section \<open>The bisection solver\<close>

text \<open>
  The solver is written over the tax primitive \<open>tax\<close> it queries; the exported function
  instantiates it with \<open>applyTax\<close>. A branch whose outcome is the same for every \<open>tax\<close>
  makes no use of the primitive.
\<close>

definition calculateTotal :: "TaxFn \<Rightarrow> int \<Rightarrow> rat \<Rightarrow> RoundMode \<Rightarrow> int \<Rightarrow> int" where
  "calculateTotal tax sub rate mode disc =
     (let adjustedSub = sub - disc in
      if adjustedSub < 0 then - 1
      else adjustedSub + tax adjustedSub rate mode)"

text \<open>
  The \<open>while (maxDiscount - minDiscount > 1)\<close> loop. \<open>Inl\<close> is the early return with an
  exact match; \<open>Inr\<close> carries \<open>(minDiscount, maxDiscount, bestDiscount, bestDifference)\<close>
  out of the loop.
\<close>

function bisect ::
  "TaxFn \<Rightarrow> int \<Rightarrow> int \<Rightarrow> rat \<Rightarrow> RoundMode \<Rightarrow> int \<Rightarrow> int \<Rightarrow> int \<Rightarrow> int
     \<Rightarrow> AdjustmentResult + (int \<times> int \<times> int \<times> int)" where
  "bisect tax sub target rate mode minDiscount maxDiscount bestDiscount bestDifference =
     (if maxDiscount - minDiscount > 1 then
        (let midDiscount = (minDiscount + maxDiscount) div 2;
             midTotal = calculateTotal tax sub rate mode midDiscount in
         if midTotal = - 1 then
           bisect tax sub target rate mode minDiscount (midDiscount - 1)
             bestDiscount bestDifference
         else if midTotal = target then
           Inl \<lparr>discount = midDiscount, isValid = True,
                adjustedSubtotal = sub - midDiscount,
                taxAmount = tax (sub - midDiscount) rate mode,
                finalTotal = target, error = None\<rparr>
         else
           (let difference = \<bar>midTotal - target\<bar>;
                bestDiscount' = (if difference < bestDifference then midDiscount
                                 else bestDiscount);
                bestDifference' = (if difference < bestDifference then difference
                                   else bestDifference) in
            if midTotal > target then
              bisect tax sub target rate mode (midDiscount + 1) maxDiscount
                bestDiscount' bestDifference'
            else
              bisect tax sub target rate mode minDiscount (midDiscount - 1)
                bestDiscount' bestDifference'))
      else Inr (minDiscount, maxDiscount, bestDiscount, bestDifference))"
  by pat_completeness auto
termination
  by (relation "measure (\<lambda>(tax, sub, target, rate, mode, lo, hi, bd, bdf). nat (hi - lo))")
    auto

text \<open>
  The \<open>for (discount = minDiscount; discount <= maxDiscount; discount++)\<close> loop over the
  residual range. \<open>Inr\<close> carries \<open>(bestDiscount, bestDifference)\<close> out of the loop.
\<close>

function scan ::
  "TaxFn \<Rightarrow> int \<Rightarrow> int \<Rightarrow> rat \<Rightarrow> RoundMode \<Rightarrow> int \<Rightarrow> int \<Rightarrow> int \<Rightarrow> int
     \<Rightarrow> AdjustmentResult + (int \<times> int)" where
  "scan tax sub target rate mode disc maxDiscount bestDiscount bestDifference =
     (if disc \<le> maxDiscount then
        (let total = calculateTotal tax sub rate mode disc in
         if total = - 1 then
           scan tax sub target rate mode (disc + 1) maxDiscount bestDiscount bestDifference
         else if total = target then
           Inl \<lparr>discount = disc, isValid = True,
                adjustedSubtotal = sub - disc,
                taxAmount = tax (sub - disc) rate mode,
                finalTotal = target, error = None\<rparr>
         else
           (let difference = \<bar>total - target\<bar> in
            if difference < bestDifference then
              scan tax sub target rate mode (disc + 1) maxDiscount disc difference
            else
              scan tax sub target rate mode (disc + 1) maxDiscount
                bestDiscount bestDifference))
      else Inr (bestDiscount, bestDifference))"
  by pat_completeness auto
termination
  by (relation "measure (\<lambda>(tax, sub, target, rate, mode, d, hi, bd, bdf). nat (hi + 1 - d))")
    auto

text \<open>
  The closing \<open>return\<close> of both solvers: the outcome recomputed at the best discount
  found, valid only if its total meets the target.
\<close>

definition bestOutcome :: "TaxFn \<Rightarrow> int \<Rightarrow> int \<Rightarrow> rat \<Rightarrow> RoundMode \<Rightarrow> int
    \<Rightarrow> AdjustmentResult" where
  "bestOutcome tax sub target rate mode bestDiscount =
     (let adjSubtotal = sub - bestDiscount;
          taxAmt = tax adjSubtotal rate mode;
          final = adjSubtotal + taxAmt in
      \<lparr>discount = bestDiscount, isValid = (final = target),
       adjustedSubtotal = adjSubtotal, taxAmount = taxAmt, finalTotal = final,
       error = (if final \<noteq> target then Some (closestMessage final target) else None)\<rparr>)"

text \<open>The destructuring default \<open>roundMode = 'floor'\<close>.\<close>

definition roundModeOrDefault :: "AdjustmentParams \<Rightarrow> RoundMode" where
  "roundModeOrDefault params = (case roundMode params of None \<Rightarrow> Floor | Some m \<Rightarrow> m)"

definition calculateAdjustment_on :: "TaxFn \<Rightarrow> AdjustmentParams \<Rightarrow> AdjustmentResult" where
  "calculateAdjustment_on tax params =
     (let sub = subtotal params; target = targetTotal params; rate = taxRate params;
          mode = roundModeOrDefault params in
      if sub < 0 then
        \<lparr>discount = 0, isValid = False, adjustedSubtotal = sub, taxAmount = 0,
         finalTotal = sub, error = Some ''Subtotal cannot be negative''\<rparr>
      else if rate < 0 \<or> rate > 1 then
        \<lparr>discount = 0, isValid = False, adjustedSubtotal = sub, taxAmount = 0,
         finalTotal = sub, error = Some ''Tax rate must be between 0 and 1''\<rparr>
      else
        (let currentTax = tax sub rate mode;
             currentTotal = sub + currentTax in
         if currentTotal = target then
           \<lparr>discount = 0, isValid = True, adjustedSubtotal = sub,
            taxAmount = currentTax, finalTotal = currentTotal, error = None\<rparr>
         else
           (case bisect tax sub target rate mode (- sub) sub 0 \<bar>currentTotal - target\<bar> of
              Inl found \<Rightarrow> found
            | Inr (minDiscount, maxDiscount, bestDiscount, bestDifference) \<Rightarrow>
                (case scan tax sub target rate mode minDiscount maxDiscount
                        bestDiscount bestDifference of
                   Inl found \<Rightarrow> found
                 | Inr (bestDiscount', bestDifference') \<Rightarrow>
                     bestOutcome tax sub target rate mode bestDiscount'))))"

definition calculateAdjustment :: "AdjustmentParams \<Rightarrow> AdjustmentResult" where
  "calculateAdjustment = calculateAdjustment_on applyTax"

section \<open>The estimate-and-scan solver\<close>

text \<open>
  The second \<open>calculateAdjustment\<close> of the source: a linear scan of the window
  \<open>initialEstimate - searchRadius .. initialEstimate + searchRadius\<close>. The estimate
  \<open>Math.floor(totalDifference / (1 + taxRate))\<close> is a binary64 sum followed by a binary64
  quotient; \<open>Math.ceil\<close> of the integer \<open>totalDifference\<close> is exact. \<open>windowProbe\<close> is
  the body shared by both of its loops: \<open>None\<close> when the candidate is skipped
  (\<open>testSubtotal < 0\<close>), otherwise \<open>(testDiscount, testSubtotal, testTax, testTotal)\<close>.
\<close>

definition windowProbe :: "int \<Rightarrow> rat \<Rightarrow> RoundMode \<Rightarrow> int \<Rightarrow> int
    \<Rightarrow> (int \<times> int \<times> int \<times> int) option" where
  "windowProbe sub rate mode initialEstimate i =
     (let testDiscount = initialEstimate + i;
          testSubtotal = sub - testDiscount in
      if testSubtotal < 0 then None
      else (let testTax = applyTax testSubtotal rate mode in
            Some (testDiscount, testSubtotal, testTax, testSubtotal + testTax)))"

fun firstExact :: "int \<Rightarrow> int \<Rightarrow> rat \<Rightarrow> RoundMode \<Rightarrow> int \<Rightarrow> int list
    \<Rightarrow> AdjustmentResult option" where
  "firstExact sub target rate mode initialEstimate [] = None"
| "firstExact sub target rate mode initialEstimate (i # is) =
     (case windowProbe sub rate mode initialEstimate i of
        None \<Rightarrow> firstExact sub target rate mode initialEstimate is
      | Some (testDiscount, testSubtotal, testTax, testTotal) \<Rightarrow>
          if testTotal = target then
            Some \<lparr>discount = testDiscount, isValid = True,
                  adjustedSubtotal = testSubtotal, taxAmount = testTax,
                  finalTotal = testTotal, error = None\<rparr>
          else firstExact sub target rate mode initialEstimate is)"

fun closest :: "int \<Rightarrow> int \<Rightarrow> rat \<Rightarrow> RoundMode \<Rightarrow> int \<Rightarrow> int list \<Rightarrow> int \<Rightarrow> int
    \<Rightarrow> int \<times> int" where
  "closest sub target rate mode initialEstimate [] bestDiscount bestDifference =
     (bestDiscount, bestDifference)"
| "closest sub target rate mode initialEstimate (i # is) bestDiscount bestDifference =
     (case windowProbe sub rate mode initialEstimate i of
        None \<Rightarrow> closest sub target rate mode initialEstimate is bestDiscount bestDifference
      | Some (testDiscount, testSubtotal, testTax, testTotal) \<Rightarrow>
          (let difference = \<bar>testTotal - target\<bar> in
           if difference < bestDifference then
             closest sub target rate mode initialEstimate is testDiscount difference
           else
             closest sub target rate mode initialEstimate is bestDiscount bestDifference))"

definition calculateAdjustment_estimate :: "AdjustmentParams \<Rightarrow> AdjustmentResult" where
  "calculateAdjustment_estimate params =
     (let sub = subtotal params; target = targetTotal params; rate = taxRate params;
          mode = roundModeOrDefault params in
      if sub < 0 then
        \<lparr>discount = 0, isValid = False, adjustedSubtotal = sub, taxAmount = 0,
         finalTotal = sub, error = Some ''Subtotal cannot be negative''\<rparr>
      else if rate < 0 \<or> rate > 1 then
        \<lparr>discount = 0, isValid = False, adjustedSubtotal = sub, taxAmount = 0,
         finalTotal = sub, error = Some ''Tax rate must be between 0 and 1''\<rparr>
      else
        (let currentTax = applyTax sub rate mode;
             currentTotal = sub + currentTax in
         if currentTotal = target then
           \<lparr>discount = 0, isValid = True, adjustedSubtotal = sub,
            taxAmount = currentTax, finalTotal = currentTotal, error = None\<rparr>
         else
           (let totalDifference = currentTotal - target;
                initialEstimate =
                  \<lfloor>toDouble (of_int totalDifference / toDouble (1 + rate))\<rfloor>;
                searchRadius = \<bar>\<lceil>(of_int totalDifference :: rat)\<rceil>\<bar> + 100;
                window = [- searchRadius .. searchRadius] in
            case firstExact sub target rate mode initialEstimate window of
              Some found \<Rightarrow> found
            | None \<Rightarrow>
                (case closest sub target rate mode initialEstimate window
                        0 \<bar>currentTotal - target\<bar> of
                   (bestDiscount, bestDifference) \<Rightarrow>
                     bestOutcome applyTax sub target rate mode bestDiscount))))"

section \<open>Predicates used in the correctness proofs\<close>

text \<open>
  \<open>covered\<close>: the tracked best candidate \<open>bd\<close> lies in the search interval, \<open>bdf\<close> is its
  distance to the target, and every discount of the search interval outside the window
  \<open>lo .. hi\<close> misses the target by at least \<open>bdf\<close>.
\<close>

definition covered :: "TaxFn \<Rightarrow> int \<Rightarrow> int \<Rightarrow> rat \<Rightarrow> RoundMode \<Rightarrow> int \<Rightarrow> int \<Rightarrow> int \<Rightarrow> int \<Rightarrow> bool" where
  "covered tax sub target rate mode lo hi bd bdf \<longleftrightarrow>
     - sub \<le> bd \<and> bd \<le> sub \<and> bdf = \<bar>calculateTotal tax sub rate mode bd - target\<bar> \<and>
     (\<forall>d. - sub \<le> d \<and> d \<le> sub \<and> (d < lo \<or> hi < d) \<longrightarrow>
        calculateTotal tax sub rate mode d \<noteq> target \<and>
        bdf \<le> \<bar>calculateTotal tax sub rate mode d - target\<bar>)"

text \<open>
  \<open>exactAt\<close>: the outcome reports an exact match at a discount of the window \<open>lo .. hi\<close>
  that keeps the adjusted subtotal non-negative.
\<close>

definition exactAt :: "TaxFn \<Rightarrow> int \<Rightarrow> int \<Rightarrow> rat \<Rightarrow> RoundMode \<Rightarrow> int \<Rightarrow> int \<Rightarrow> AdjustmentResult \<Rightarrow> bool" where
  "exactAt tax sub target rate mode lo hi res \<longleftrightarrow>
     lo \<le> discount res \<and> discount res \<le> hi \<and> discount res \<le> sub \<and> isValid res \<and>
     adjustedSubtotal res = sub - discount res \<and>
     taxAmount res = tax (sub - discount res) rate mode \<and>
     finalTotal res = target \<and> target = adjustedSubtotal res + taxAmount res \<and>
     error res = None"

text \<open>
  \<open>optimalFor\<close>: the outcome is arithmetically consistent, its discount lies in the
  search interval, its flags agree with its total, and no discount of the search interval
  comes closer to the target.
\<close>

definition optimalFor :: "TaxFn \<Rightarrow> int \<Rightarrow> int \<Rightarrow> rat \<Rightarrow> RoundMode \<Rightarrow> AdjustmentResult \<Rightarrow> bool" where
  "optimalFor tax sub target rate mode res \<longleftrightarrow>
     - sub \<le> discount res \<and> discount res \<le> sub \<and>
     adjustedSubtotal res = sub - discount res \<and>
     taxAmount res = tax (adjustedSubtotal res) rate mode \<and>
     finalTotal res = adjustedSubtotal res + taxAmount res \<and>
     isValid res = (finalTotal res = target) \<and>
     (error res = None) = isValid res \<and>
     (\<forall>d. - sub \<le> d \<and> d \<le> sub \<longrightarrow>
        \<bar>finalTotal res - target\<bar> \<le> \<bar>calculateTotal tax sub rate mode d - target\<bar>)"

text \<open>
  \<open>consistentFor\<close>: the fields of the outcome are those computed from its discount,
  and its flags agree with its total.
\<close>

definition consistentFor :: "TaxFn \<Rightarrow> int \<Rightarrow> int \<Rightarrow> rat \<Rightarrow> RoundMode \<Rightarrow> AdjustmentResult \<Rightarrow> bool" where
  "consistentFor tax sub target rate mode res \<longleftrightarrow>
     adjustedSubtotal res = sub - discount res \<and>
     taxAmount res = tax (adjustedSubtotal res) rate mode \<and>
     finalTotal res = adjustedSubtotal res + taxAmount res \<and>
     isValid res = (finalTotal res = target) \<and>
     (error res = None) = isValid res"

declare bisect.simps [simp del] scan.simps [simp del]

section \<open>Rounding to binary64 is monotone and exact on small integers\<close>

lemma roundTiesToEven_of_int: "roundTiesToEven (of_int n) = n"
  by (simp add: roundTiesToEven_def)

lemma roundTiesToEven_floor: "\<lfloor>q\<rfloor> \<le> roundTiesToEven q \<and> roundTiesToEven q \<le> \<lfloor>q\<rfloor> + 1"
  by (simp add: roundTiesToEven_def Let_def)

lemma roundTiesToEven_mono:
  assumes "q1 \<le> q2"
  shows "roundTiesToEven q1 \<le> roundTiesToEven q2"
proof (cases "\<lfloor>q1\<rfloor> = \<lfloor>q2\<rfloor>")
  case True
  with assms have "q1 - of_int \<lfloor>q1\<rfloor> \<le> q2 - of_int \<lfloor>q2\<rfloor>" by simp
  with True show ?thesis
    by (auto simp: roundTiesToEven_def Let_def)
next
  case False
  with assms have "\<lfloor>q1\<rfloor> < \<lfloor>q2\<rfloor>"
    using floor_mono [OF assms] by simp
  with roundTiesToEven_floor [of q1] roundTiesToEven_floor [of q2]
  show ?thesis by linarith
qed

lemma binade_bounds:
  assumes "0 < x"
  shows "2 powi binade x \<le> x \<and> x < 2 powi (binade x + 1)"
proof -
  obtain a b where q: "quotient_of x = (a, b)" by (cases "quotient_of x") auto
  then have b: "0 < b" and x: "x = of_int a / of_int b"
    using quotient_of_denom_pos quotient_of_div by blast+
  with assms have a: "0 < a" by (simp add: zero_less_divide_iff)
  let ?k = "bitlen a - bitlen b"
  from bitlen_bounds [OF a] have ba: "2 ^ nat (bitlen a - 1) \<le> a" "a < 2 ^ nat (bitlen a)" by simp_all
  from bitlen_bounds [OF b] have bb: "2 ^ nat (bitlen b - 1) \<le> b" "b < 2 ^ nat (bitlen b)" by simp_all
  have la: "1 \<le> bitlen a" using a by (auto simp: bitlen_alt_def)
  have lb: "1 \<le> bitlen b" using b by (auto simp: bitlen_alt_def)
  have ra: "(2::rat) powi (bitlen a - 1) \<le> of_int a" "of_int a < (2::rat) powi bitlen a"
  proof -
    have "(2::rat) ^ nat (bitlen a - 1) \<le> of_int a"
      using ba(1) by (metis of_int_le_iff of_int_numeral of_int_power)
    then show "(2::rat) powi (bitlen a - 1) \<le> of_int a"
      using la by (simp add: power_int_nonneg_exp)
    have "of_int a < (2::rat) ^ nat (bitlen a)"
      using ba(2) by (metis of_int_less_iff of_int_numeral of_int_power)
    then show "of_int a < (2::rat) powi bitlen a"
      using la by (simp add: power_int_nonneg_exp)
  qed
  have rb: "(2::rat) powi (bitlen b - 1) \<le> of_int b" "of_int b < (2::rat) powi bitlen b"
  proof -
    have "(2::rat) ^ nat (bitlen b - 1) \<le> of_int b"
      using bb(1) by (metis of_int_le_iff of_int_numeral of_int_power)
    then show "(2::rat) powi (bitlen b - 1) \<le> of_int b"
      using lb by (simp add: power_int_nonneg_exp)
    have "of_int b < (2::rat) ^ nat (bitlen b)"
      using bb(2) by (metis of_int_less_iff of_int_numeral of_int_power)
    then show "of_int b < (2::rat) powi bitlen b"
      using lb by (simp add: power_int_nonneg_exp)
  qed
  have bpos: "(0::rat) < of_int b" using b by simp
  have lower: "(2::rat) powi (?k - 1) < x"
  proof -
    have "(2::rat) powi (?k - 1) * of_int b < 2 powi (?k - 1) * 2 powi bitlen b"
      using rb(2) by simp
    also have "\<dots> = 2 powi (bitlen a - 1)"
      by (simp add: power_int_add [symmetric])
    also have "\<dots> \<le> of_int a" by (rule ra(1))
    finally show ?thesis using bpos by (simp add: x pos_less_divide_eq)
  qed
  have upper: "x < (2::rat) powi (?k + 1)"
  proof -
    have "of_int a < (2::rat) powi bitlen a" by (rule ra(2))
    also have "\<dots> = 2 powi (?k + 1) * 2 powi (bitlen b - 1)"
      by (simp add: power_int_add [symmetric])
    also have "\<dots> \<le> 2 powi (?k + 1) * of_int b"
      using rb(1) by simp
    finally show ?thesis using bpos by (simp add: x pos_divide_less_eq)
  qed
  show ?thesis
  proof (cases "(2::rat) powi ?k \<le> x")
    case True
    then have "binade x = ?k" by (simp add: binade_def q Let_def)
    with True upper show ?thesis by simp
  next
    case False
    then have "binade x = ?k - 1" by (simp add: binade_def q Let_def)
    with False lower show ?thesis by simp
  qed
qed

lemma binade_mono:
  assumes "0 < x" "x \<le> y"
  shows "binade x \<le> binade y"
proof (rule ccontr)
  assume "\<not> binade x \<le> binade y"
  then have "binade y + 1 \<le> binade x" by simp
  then have "(2::rat) powi (binade y + 1) \<le> 2 powi binade x"
    by (intro power_int_increasing) simp_all
  with binade_bounds [OF assms(1)] binade_bounds [of y] assms show False by simp
qed

lemma toDouble_pos_eq:
  "0 < x \<Longrightarrow> toDouble x
     = of_int (roundTiesToEven (x / 2 powi (binade x - 52))) * 2 powi (binade x - 52)"
  by (simp add: toDouble_def Let_def)

lemma toDouble_0: "toDouble 0 = 0"
  by (simp add: toDouble_def)

lemma toDouble_minus: "toDouble (- x) = - toDouble x"
  by (simp add: toDouble_def Let_def)

lemma scaled_bounds:
  assumes "0 < x"
  shows "2 ^ 52 \<le> x / 2 powi (binade x - 52) \<and> x / 2 powi (binade x - 52) \<le> 2 ^ 53"
proof -
  have u: "(0::rat) < 2 powi (binade x - 52)" by simp
  have e1: "(2::rat) ^ 52 * 2 powi (binade x - 52) = 2 powi binade x"
    by (simp add: power_int_diff)
  have e2: "(2::rat) ^ 53 * 2 powi (binade x - 52) = 2 powi (binade x + 1)"
    by (simp add: power_int_diff power_int_add)
  from binade_bounds [OF assms] e1 e2 show ?thesis
    by (simp add: pos_le_divide_eq pos_divide_le_eq)
qed

lemma toDouble_pos_bounds:
  assumes "0 < x"
  shows "2 powi binade x \<le> toDouble x \<and> toDouble x \<le> 2 powi (binade x + 1)"
proof -
  let ?u = "(2::rat) powi (binade x - 52)"
  let ?n = "roundTiesToEven (x / ?u)"
  from scaled_bounds [OF assms]
  have sc: "of_int (2 ^ 52) \<le> x / ?u" "x / ?u \<le> of_int (2 ^ 53)" by simp_all
  have "roundTiesToEven (of_int (2 ^ 52)) \<le> ?n"
    using sc(1) by (rule roundTiesToEven_mono)
  moreover have "?n \<le> roundTiesToEven (of_int (2 ^ 53))"
    using sc(2) by (rule roundTiesToEven_mono)
  ultimately have n: "2 ^ 52 \<le> ?n" "?n \<le> 2 ^ 53"
    by (simp_all only: roundTiesToEven_of_int)
  then have "(2::rat) ^ 52 \<le> of_int ?n" "of_int ?n \<le> (2::rat) ^ 53"
    by (metis of_int_le_iff of_int_numeral of_int_power)+
  then have m: "(2::rat) ^ 52 * ?u \<le> of_int ?n * ?u" "of_int ?n * ?u \<le> (2::rat) ^ 53 * ?u"
    by (simp_all only: mult_right_mono zero_le_power_int zero_le_numeral)
  have e1: "(2::rat) ^ 52 * ?u = 2 powi binade x"
    by (simp add: power_int_diff)
  have e2: "(2::rat) ^ 53 * ?u = 2 powi (binade x + 1)"
    by (simp add: power_int_diff power_int_add)
  show ?thesis
    unfolding toDouble_pos_eq [OF assms] using m e1 e2 by (simp only:)
qed

lemma toDouble_pos: "0 < x \<Longrightarrow> 0 < toDouble x"
  using toDouble_pos_bounds [of x] zero_less_power_int [of "2::rat" "binade x"]
  by linarith

lemma toDouble_mono_pos:
  assumes "0 < x" "x \<le> y"
  shows "toDouble x \<le> toDouble y"
proof -
  from assms have y: "0 < y" by simp
  show ?thesis
  proof (cases "binade x = binade y")
    case True
    let ?u = "(2::rat) powi (binade y - 52)"
    have "x / ?u \<le> y / ?u" using assms(2) by (simp add: divide_right_mono)
    then have "roundTiesToEven (x / ?u) \<le> roundTiesToEven (y / ?u)"
      by (rule roundTiesToEven_mono)
    then have "(of_int (roundTiesToEven (x / ?u)) :: rat) * ?u
                 \<le> of_int (roundTiesToEven (y / ?u)) * ?u"
      by (simp add: mult_right_mono)
    then show ?thesis by (simp add: toDouble_pos_eq assms(1) y True)
  next
    case False
    with binade_mono [OF assms] have "binade x + 1 \<le> binade y" by simp
    then have "(2::rat) powi (binade x + 1) \<le> 2 powi binade y"
      by (intro power_int_increasing) simp_all
    with toDouble_pos_bounds [OF assms(1)] toDouble_pos_bounds [OF y]
    show ?thesis by linarith
  qed
qed

lemma toDouble_mono:
  assumes "x \<le> y"
  shows "toDouble x \<le> toDouble y"
proof -
  consider (pp) "0 < x" | (zp) "x = 0" "0 < y" | (zz) "x = 0" "y = 0"
    | (np) "x < 0" "0 < y" | (nz) "x < 0" "y = 0" | (nn) "x < 0" "y < 0"
    using assms by linarith
  then show ?thesis
  proof cases
    case pp
    then show ?thesis using assms by (rule toDouble_mono_pos)
  next
    case zp
    then show ?thesis using toDouble_pos [of y] by (simp add: toDouble_0)
  next
    case zz
    then show ?thesis by simp
  next
    case np
    then show ?thesis
      using toDouble_pos [of y] toDouble_pos [of "- x"] by (simp add: toDouble_minus)
  next
    case nz
    then show ?thesis using toDouble_pos [of "- x"] by (simp add: toDouble_minus toDouble_0)
  next
    case nn
    then have "toDouble (- y) \<le> toDouble (- x)"
      using assms by (intro toDouble_mono_pos) simp_all
    then show ?thesis by (simp add: toDouble_minus)
  qed
qed

lemma toDouble_of_int:
  assumes "\<bar>n\<bar> < 2 ^ 53"
  shows "toDouble (of_int n) = of_int n"
proof -
  have pos: "toDouble (of_int m) = of_int m" if m: "0 < m" "m < 2 ^ 53" for m :: int
  proof -
    let ?x = "of_int m :: rat"
    have x: "0 < ?x" using m by simp
    have "?x < 2 ^ 53"
      using m(2) by (metis of_int_less_iff of_int_numeral of_int_power)
    then have "?x < 2 powi 53" by simp
    with binade_bounds [OF x] have "(2::rat) powi binade ?x < 2 powi 53" by linarith
    have e: "binade ?x < 53"
    proof (rule ccontr)
      assume "\<not> binade ?x < 53"
      then have "(2::rat) powi 53 \<le> 2 powi binade ?x"
        by (intro power_int_increasing) simp_all
      with \<open>(2::rat) powi binade ?x < 2 powi 53\<close> show False by simp
    qed
    define k where "k = nat (52 - binade ?x)"
    have u: "(2::rat) powi (binade ?x - 52) = 1 / 2 ^ k"
      using e by (simp add: k_def power_int_def field_simps)
    have "?x / (2::rat) powi (binade ?x - 52) = of_int (m * 2 ^ k)"
      by (simp add: u)
    then have "roundTiesToEven (?x / 2 powi (binade ?x - 52)) = m * 2 ^ k"
      by (simp only: roundTiesToEven_of_int)
    then show ?thesis
      by (simp add: toDouble_pos_eq [OF x] u)
  qed
  consider "0 < n" | "n = 0" | "n < 0" by linarith
  then show ?thesis
  proof cases
    case 1
    then show ?thesis using pos [of n] assms by simp
  next
    case 2
    then show ?thesis by (simp add: toDouble_0)
  next
    case 3
    then have "toDouble (of_int (- n)) = of_int (- n)" using pos [of "- n"] assms by simp
    then show ?thesis by (simp add: toDouble_minus)
  qed
qed

section \<open>Properties of the tax primitive and of the probe\<close>

lemma applyTax_mono:
  assumes "0 \<le> rate" "a \<le> b"
  shows "applyTax a rate mode \<le> applyTax b rate mode"
proof -
  have "of_int a * rate \<le> of_int b * rate"
    using assms by (simp add: mult_right_mono)
  then have "toDouble (of_int a * rate) \<le> toDouble (of_int b * rate)"
    by (rule toDouble_mono)
  then show ?thesis
    by (cases mode) (simp_all add: applyTax_def floor_mono ceiling_mono)
qed

lemma applyTax_zero: "applyTax 0 rate mode = 0"
proof -
  have "\<lfloor>(1::rat) / 2\<rfloor> = 0" by (rule floor_unique) simp_all
  then show ?thesis by (cases mode) (simp_all add: applyTax_def toDouble_0)
qed

lemma applyTax_nonneg: "0 \<le> rate \<Longrightarrow> 0 \<le> a \<Longrightarrow> 0 \<le> applyTax a rate mode"
  using applyTax_mono [of rate 0 a mode] by (simp add: applyTax_zero)

lemma applyTax_le_amount:
  assumes "0 \<le> rate" "rate \<le> 1" "0 \<le> a" "a < 2 ^ 53"
  shows "applyTax a rate mode \<le> a"
proof -
  have "of_int a * rate \<le> of_int a"
    using assms by (simp add: mult_left_le)
  then have "toDouble (of_int a * rate) \<le> toDouble (of_int a)"
    by (rule toDouble_mono)
  also have "toDouble (of_int a) = of_int a"
    using assms by (intro toDouble_of_int) simp
  finally have le: "toDouble (of_int a * rate) \<le> of_int a" .
  then have "\<lfloor>toDouble (of_int a * rate)\<rfloor> \<le> a"
    "\<lceil>toDouble (of_int a * rate)\<rceil> \<le> a"
    "\<lfloor>toDouble (of_int a * rate) + 1 / 2\<rfloor> \<le> a"
    by (simp_all add: floor_le_iff ceiling_le_iff)
  then show ?thesis
    by (cases mode) (simp_all add: applyTax_def)
qed

lemma calculateTotal_eq:
  "d \<le> sub \<Longrightarrow> calculateTotal tax sub rate mode d = sub - d + tax (sub - d) rate mode"
  by (simp add: calculateTotal_def Let_def)

lemma calculateTotal_antimono:
  assumes mono: "\<And>a b. a \<le> b \<Longrightarrow> tax a rate mode \<le> tax b rate mode"
    and "d1 < d2" "d2 \<le> sub"
  shows "calculateTotal tax sub rate mode d2 < calculateTotal tax sub rate mode d1"
  using assms(2,3) mono [of "sub - d2" "sub - d1"] by (simp add: calculateTotal_eq)

lemma calculateTotal_nonneg:
  assumes "\<And>a. 0 \<le> a \<Longrightarrow> 0 \<le> tax a rate mode" "d \<le> sub"
  shows "0 \<le> calculateTotal tax sub rate mode d"
  using assms(2) assms(1) [of "sub - d"] by (simp add: calculateTotal_eq)

lemma covered_extend:
  assumes cov: "covered tax sub target rate mode lo hi bd bdf"
    and rng: "- sub \<le> mid" "mid \<le> sub"
    and diff: "diff = \<bar>calculateTotal tax sub rate mode mid - target\<bar>"
    and new: "\<And>d. - sub \<le> d \<Longrightarrow> d \<le> sub \<Longrightarrow> d < lo' \<or> hi' < d \<Longrightarrow> lo \<le> d \<Longrightarrow> d \<le> hi \<Longrightarrow>
               calculateTotal tax sub rate mode d \<noteq> target \<and>
               diff \<le> \<bar>calculateTotal tax sub rate mode d - target\<bar>"
  shows "covered tax sub target rate mode lo' hi'
           (if diff < bdf then mid else bd) (if diff < bdf then diff else bdf)"
  unfolding covered_def
proof (intro conjI allI impI)
  fix d
  assume d: "- sub \<le> d \<and> d \<le> sub \<and> (d < lo' \<or> hi' < d)"
  have old: "calculateTotal tax sub rate mode d \<noteq> target \<and>
             bdf \<le> \<bar>calculateTotal tax sub rate mode d - target\<bar>" if "d < lo \<or> hi < d"
    using cov d that unfolding covered_def by blast
  show "calculateTotal tax sub rate mode d \<noteq> target"
    using old new [of d] d by (cases "d < lo \<or> hi < d") auto
  show "(if diff < bdf then diff else bdf) \<le> \<bar>calculateTotal tax sub rate mode d - target\<bar>"
  proof (cases "d < lo \<or> hi < d")
    case True
    then show ?thesis using old by (simp split: if_splits)
  next
    case False
    then have "diff \<le> \<bar>calculateTotal tax sub rate mode d - target\<bar>"
      using new [of d] d by auto
    then show ?thesis by (simp split: if_splits)
  qed
qed (use cov rng diff in \<open>auto simp: covered_def\<close>)

lemma covered_probe:
  assumes "covered tax sub target rate mode lo hi bd bdf"
    and "- sub \<le> lo" "lo \<le> sub"
    and "calculateTotal tax sub rate mode lo \<noteq> target"
    and "diff = \<bar>calculateTotal tax sub rate mode lo - target\<bar>"
  shows "covered tax sub target rate mode (lo + 1) hi
           (if diff < bdf then lo else bd) (if diff < bdf then diff else bdf)"
proof (rule covered_extend [OF assms(1-3) assms(5)])
  fix d :: int
  assume "d < lo + 1 \<or> hi < d" "lo \<le> d" "d \<le> hi"
  then have "d = lo" by linarith
  then show "calculateTotal tax sub rate mode d \<noteq> target \<and>
             diff \<le> \<bar>calculateTotal tax sub rate mode d - target\<bar>"
    using assms(4,5) by simp
qed

lemma covered_above:
  assumes mono: "\<And>a b. a \<le> b \<Longrightarrow> tax a rate mode \<le> tax b rate mode"
    and cov: "covered tax sub target rate mode lo hi bd bdf"
    and rng: "- sub \<le> mid" "mid \<le> sub"
    and above: "target < calculateTotal tax sub rate mode mid"
    and diff: "diff = \<bar>calculateTotal tax sub rate mode mid - target\<bar>"
  shows "covered tax sub target rate mode (mid + 1) hi
           (if diff < bdf then mid else bd) (if diff < bdf then diff else bdf)"
proof (rule covered_extend [OF cov rng diff])
  fix d :: int
  assume "d < mid + 1 \<or> hi < d" "d \<le> hi"
  then have "d = mid \<or> d < mid" by linarith
  then show "calculateTotal tax sub rate mode d \<noteq> target \<and>
             diff \<le> \<bar>calculateTotal tax sub rate mode d - target\<bar>"
  proof
    assume "d = mid"
    then show ?thesis using above diff by simp
  next
    assume "d < mid"
    then have "calculateTotal tax sub rate mode mid < calculateTotal tax sub rate mode d"
      using calculateTotal_antimono [of tax rate mode d mid sub] mono rng(2) by blast
    then show ?thesis using above diff by simp
  qed
qed

lemma covered_below:
  assumes mono: "\<And>a b. a \<le> b \<Longrightarrow> tax a rate mode \<le> tax b rate mode"
    and cov: "covered tax sub target rate mode lo hi bd bdf"
    and rng: "- sub \<le> mid" "mid \<le> sub"
    and below: "calculateTotal tax sub rate mode mid < target"
    and diff: "diff = \<bar>calculateTotal tax sub rate mode mid - target\<bar>"
  shows "covered tax sub target rate mode lo (mid - 1)
           (if diff < bdf then mid else bd) (if diff < bdf then diff else bdf)"
proof (rule covered_extend [OF cov rng diff])
  fix d :: int
  assume d: "d \<le> sub" "d < lo \<or> mid - 1 < d" "lo \<le> d"
  then have "d = mid \<or> mid < d" by linarith
  then show "calculateTotal tax sub rate mode d \<noteq> target \<and>
             diff \<le> \<bar>calculateTotal tax sub rate mode d - target\<bar>"
  proof
    assume "d = mid"
    then show ?thesis using below diff by simp
  next
    assume "mid < d"
    then have "calculateTotal tax sub rate mode d < calculateTotal tax sub rate mode mid"
      using calculateTotal_antimono [of tax rate mode mid d sub] mono d(1) by blast
    then show ?thesis using below diff by simp
  qed
qed

section \<open>The bisection loop\<close>

lemma bisect_done:
  "\<not> 1 < hi - lo \<Longrightarrow> bisect tax sub target rate mode lo hi bd bdf = Inr (lo, hi, bd, bdf)"
  by (subst bisect.simps) simp

lemma bisect_sentinel:
  "1 < hi - lo \<Longrightarrow> calculateTotal tax sub rate mode ((lo + hi) div 2) = - 1 \<Longrightarrow>
   bisect tax sub target rate mode lo hi bd bdf =
   bisect tax sub target rate mode lo ((lo + hi) div 2 - 1) bd bdf"
  by (subst bisect.simps) (simp add: Let_def)

lemma bisect_exact:
  "1 < hi - lo \<Longrightarrow> calculateTotal tax sub rate mode ((lo + hi) div 2) \<noteq> - 1 \<Longrightarrow>
   calculateTotal tax sub rate mode ((lo + hi) div 2) = target \<Longrightarrow>
   bisect tax sub target rate mode lo hi bd bdf =
   Inl \<lparr>discount = (lo + hi) div 2, isValid = True,
        adjustedSubtotal = sub - (lo + hi) div 2,
        taxAmount = tax (sub - (lo + hi) div 2) rate mode,
        finalTotal = target, error = None\<rparr>"
  by (subst bisect.simps) (simp add: Let_def)

lemma bisect_above:
  "1 < hi - lo \<Longrightarrow> T = calculateTotal tax sub rate mode ((lo + hi) div 2) \<Longrightarrow> T \<noteq> - 1 \<Longrightarrow>
   target < T \<Longrightarrow>
   bisect tax sub target rate mode lo hi bd bdf =
   bisect tax sub target rate mode ((lo + hi) div 2 + 1) hi
     (if \<bar>T - target\<bar> < bdf then (lo + hi) div 2 else bd)
     (if \<bar>T - target\<bar> < bdf then \<bar>T - target\<bar> else bdf)"
  by (subst bisect.simps) (simp add: Let_def)

lemma bisect_below:
  "1 < hi - lo \<Longrightarrow> T = calculateTotal tax sub rate mode ((lo + hi) div 2) \<Longrightarrow> T \<noteq> - 1 \<Longrightarrow>
   T < target \<Longrightarrow>
   bisect tax sub target rate mode lo hi bd bdf =
   bisect tax sub target rate mode lo ((lo + hi) div 2 - 1)
     (if \<bar>T - target\<bar> < bdf then (lo + hi) div 2 else bd)
     (if \<bar>T - target\<bar> < bdf then \<bar>T - target\<bar> else bdf)"
  by (subst bisect.simps) (simp add: Let_def)

lemma exactAt_widen:
  "exactAt tax sub target rate mode lo hi res \<Longrightarrow> lo' \<le> lo \<Longrightarrow> hi \<le> hi' \<Longrightarrow>
   exactAt tax sub target rate mode lo' hi' res"
  by (auto simp: exactAt_def)

lemma exactAt_probe:
  assumes "calculateTotal tax sub rate mode d = target" "target \<noteq> - 1" "lo \<le> d" "d \<le> hi"
  shows "exactAt tax sub target rate mode lo hi
           \<lparr>discount = d, isValid = True, adjustedSubtotal = sub - d,
            taxAmount = tax (sub - d) rate mode, finalTotal = target, error = None\<rparr>"
  using assms by (auto simp: exactAt_def calculateTotal_def Let_def split: if_splits)

lemma bisect_Inl:
  "bisect tax sub target rate mode lo hi bd bdf = Inl res \<Longrightarrow>
   exactAt tax sub target rate mode lo hi res"
proof (induction tax sub target rate mode lo hi bd bdf rule: bisect.induct)
  case (1 tax sub target rate mode lo hi bd bdf)
  let ?mid = "(lo + hi) div 2"
  let ?T = "calculateTotal tax sub rate mode ?mid"
  from "1.prems" have wide: "1 < hi - lo"
    by (cases "1 < hi - lo") (simp_all add: bisect_done)
  then have mid: "lo \<le> ?mid" "?mid \<le> hi" by linarith+
  consider (sentinel) "?T = - 1" | (exact) "?T \<noteq> - 1" "?T = target"
    | (above) "?T \<noteq> - 1" "target < ?T" | (below) "?T \<noteq> - 1" "?T < target"
    by linarith
  then show ?case
  proof cases
    case sentinel
    from "1.prems" have "bisect tax sub target rate mode lo (?mid - 1) bd bdf = Inl res"
      by (simp add: bisect_sentinel [OF wide sentinel])
    from "1.IH"(1) [OF wide refl refl sentinel this] mid
    show ?thesis by (auto intro: exactAt_widen)
  next
    case exact
    from "1.prems" exactAt_probe [OF exact(2) _ mid] exact
    show ?thesis by (simp add: bisect_exact [OF wide exact])
  next
    case above
    then have miss: "?T \<noteq> target" by simp
    from "1.prems" have "bisect tax sub target rate mode (?mid + 1) hi
                (if \<bar>?T - target\<bar> < bdf then ?mid else bd)
                (if \<bar>?T - target\<bar> < bdf then \<bar>?T - target\<bar> else bdf) = Inl res"
      by (simp only: bisect_above [OF wide refl above])
    from "1.IH"(2) [OF wide refl refl above(1) miss refl refl refl above(2) this] mid
    show ?thesis by (auto intro: exactAt_widen)
  next
    case below
    then have miss: "?T \<noteq> target" and nab: "\<not> target < ?T" by simp_all
    from "1.prems" have "bisect tax sub target rate mode lo (?mid - 1)
                (if \<bar>?T - target\<bar> < bdf then ?mid else bd)
                (if \<bar>?T - target\<bar> < bdf then \<bar>?T - target\<bar> else bdf) = Inl res"
      by (simp only: bisect_below [OF wide refl below])
    from "1.IH"(3) [OF wide refl refl below(1) miss refl refl refl nab this] mid
    show ?thesis by (auto intro: exactAt_widen)
  qed
qed

lemma bisect_Inr:
  "bisect tax sub target rate mode lo hi bd bdf = Inr (lo', hi', bd', bdf') \<Longrightarrow>
   \<forall>a b. a \<le> b \<longrightarrow> tax a rate mode \<le> tax b rate mode \<Longrightarrow>
   \<forall>a. 0 \<le> a \<longrightarrow> 0 \<le> tax a rate mode \<Longrightarrow>
   - sub \<le> lo \<Longrightarrow> hi \<le> sub \<Longrightarrow>
   covered tax sub target rate mode lo hi bd bdf \<Longrightarrow>
   covered tax sub target rate mode lo' hi' bd' bdf' \<and> - sub \<le> lo' \<and> hi' \<le> sub"
proof (induction tax sub target rate mode lo hi bd bdf rule: bisect.induct)
  case (1 tax sub target rate mode lo hi bd bdf)
  note res = "1.prems"(1) and mono = "1.prems"(2) and nonneg = "1.prems"(3)
    and rng = "1.prems"(4,5) and cov = "1.prems"(6)
  let ?mid = "(lo + hi) div 2"
  let ?T = "calculateTotal tax sub rate mode ?mid"
  show ?case
  proof (cases "1 < hi - lo")
    case False
    with res rng cov show ?thesis by (simp add: bisect_done)
  next
    case wide: True
    then have mid: "lo \<le> ?mid" "?mid \<le> hi" by linarith+
    with rng have mrng: "- sub \<le> ?mid" "?mid \<le> sub" by linarith+
    have "0 \<le> ?T"
      using calculateTotal_nonneg [of tax rate mode ?mid sub] nonneg mrng by blast
    then have ns: "?T \<noteq> - 1" by simp
    have mono': "\<And>a b. a \<le> b \<Longrightarrow> tax a rate mode \<le> tax b rate mode"
      using mono by blast
    have nex: "?T \<noteq> target"
      using res bisect_exact [OF wide ns] by auto
    show ?thesis
    proof (cases "target < ?T")
      case True
      from res have r: "bisect tax sub target rate mode (?mid + 1) hi
                (if \<bar>?T - target\<bar> < bdf then ?mid else bd)
                (if \<bar>?T - target\<bar> < bdf then \<bar>?T - target\<bar> else bdf)
                 = Inr (lo', hi', bd', bdf')"
        by (simp only: bisect_above [OF wide refl ns True])
      have c: "covered tax sub target rate mode (?mid + 1) hi
                (if \<bar>?T - target\<bar> < bdf then ?mid else bd)
                (if \<bar>?T - target\<bar> < bdf then \<bar>?T - target\<bar> else bdf)"
        by (rule covered_above [OF mono' cov mrng True refl])
      from "1.IH"(2) [OF wide refl refl ns nex refl refl refl True r mono nonneg _ rng(2) c] mrng
      show ?thesis by simp
    next
      case False
      with nex have below: "?T < target" by simp
      from res have r: "bisect tax sub target rate mode lo (?mid - 1)
                (if \<bar>?T - target\<bar> < bdf then ?mid else bd)
                (if \<bar>?T - target\<bar> < bdf then \<bar>?T - target\<bar> else bdf)
                 = Inr (lo', hi', bd', bdf')"
        by (simp only: bisect_below [OF wide refl ns below])
      have c: "covered tax sub target rate mode lo (?mid - 1)
                (if \<bar>?T - target\<bar> < bdf then ?mid else bd)
                (if \<bar>?T - target\<bar> < bdf then \<bar>?T - target\<bar> else bdf)"
        by (rule covered_below [OF mono' cov mrng below refl])
      from "1.IH"(3) [OF wide refl refl ns nex refl refl refl False r mono nonneg rng(1) _ c] mrng
      show ?thesis by simp
    qed
  qed
qed

section \<open>The residual scan\<close>

lemma scan_done:
  "\<not> disc \<le> hi \<Longrightarrow> scan tax sub target rate mode disc hi bd bdf = Inr (bd, bdf)"
  by (subst scan.simps) simp

lemma scan_sentinel:
  "disc \<le> hi \<Longrightarrow> calculateTotal tax sub rate mode disc = - 1 \<Longrightarrow>
   scan tax sub target rate mode disc hi bd bdf =
   scan tax sub target rate mode (disc + 1) hi bd bdf"
  by (subst scan.simps) (simp add: Let_def)

lemma scan_exact:
  "disc \<le> hi \<Longrightarrow> calculateTotal tax sub rate mode disc \<noteq> - 1 \<Longrightarrow>
   calculateTotal tax sub rate mode disc = target \<Longrightarrow>
   scan tax sub target rate mode disc hi bd bdf =
   Inl \<lparr>discount = disc, isValid = True, adjustedSubtotal = sub - disc,
        taxAmount = tax (sub - disc) rate mode, finalTotal = target, error = None\<rparr>"
  by (subst scan.simps) (simp add: Let_def)

lemma scan_miss:
  "disc \<le> hi \<Longrightarrow> T = calculateTotal tax sub rate mode disc \<Longrightarrow> T \<noteq> - 1 \<Longrightarrow>
   T \<noteq> target \<Longrightarrow>
   scan tax sub target rate mode disc hi bd bdf =
   scan tax sub target rate mode (disc + 1) hi
     (if \<bar>T - target\<bar> < bdf then disc else bd)
     (if \<bar>T - target\<bar> < bdf then \<bar>T - target\<bar> else bdf)"
  by (subst scan.simps) (simp add: Let_def)

lemma scan_Inl:
  "scan tax sub target rate mode disc hi bd bdf = Inl res \<Longrightarrow>
   exactAt tax sub target rate mode disc hi res"
proof (induction tax sub target rate mode disc hi bd bdf rule: scan.induct)
  case (1 tax sub target rate mode disc hi bd bdf)
  let ?T = "calculateTotal tax sub rate mode disc"
  from "1.prems" have more: "disc \<le> hi"
    by (cases "disc \<le> hi") (simp_all add: scan_done)
  consider (sentinel) "?T = - 1" | (exact) "?T \<noteq> - 1" "?T = target"
    | (miss) "?T \<noteq> - 1" "?T \<noteq> target"
    by blast
  then show ?case
  proof cases
    case sentinel
    from "1.prems" have "scan tax sub target rate mode (disc + 1) hi bd bdf = Inl res"
      by (simp add: scan_sentinel [OF more sentinel])
    from "1.IH"(1) [OF more refl sentinel this]
    show ?thesis by (auto intro: exactAt_widen)
  next
    case exact
    from "1.prems" exactAt_probe [OF exact(2) _ order_refl more] exact
    show ?thesis by (simp add: scan_exact [OF more exact])
  next
    case miss
    from "1.prems" have r: "scan tax sub target rate mode (disc + 1) hi
                (if \<bar>?T - target\<bar> < bdf then disc else bd)
                (if \<bar>?T - target\<bar> < bdf then \<bar>?T - target\<bar> else bdf) = Inl res"
      by (simp only: scan_miss [OF more refl miss])
    show ?thesis
    proof (cases "\<bar>?T - target\<bar> < bdf")
      case True
      from "1.IH"(2) [OF more refl miss refl True] r True
      show ?thesis by (auto intro: exactAt_widen)
    next
      case False
      from "1.IH"(3) [OF more refl miss refl False] r False
      show ?thesis by (auto intro: exactAt_widen)
    qed
  qed
qed

lemma scan_Inr:
  "scan tax sub target rate mode disc hi bd bdf = Inr (bd', bdf') \<Longrightarrow>
   \<forall>a. 0 \<le> a \<longrightarrow> 0 \<le> tax a rate mode \<Longrightarrow>
   - sub \<le> disc \<Longrightarrow> hi \<le> sub \<Longrightarrow>
   covered tax sub target rate mode disc hi bd bdf \<Longrightarrow>
   covered tax sub target rate mode (hi + 1) hi bd' bdf'"
proof (induction tax sub target rate mode disc hi bd bdf rule: scan.induct)
  case (1 tax sub target rate mode disc hi bd bdf)
  note res = "1.prems"(1) and nonneg = "1.prems"(2)
    and rng = "1.prems"(3,4) and cov = "1.prems"(5)
  let ?T = "calculateTotal tax sub rate mode disc"
  show ?case
  proof (cases "disc \<le> hi")
    case False
    with res have "bd' = bd" "bdf' = bdf" by (simp_all add: scan_done)
    with cov False show ?thesis unfolding covered_def by auto
  next
    case more: True
    with rng have drng: "- sub \<le> disc" "disc \<le> sub" "- sub \<le> disc + 1" by linarith+
    have "0 \<le> ?T"
      using calculateTotal_nonneg [of tax rate mode disc sub] nonneg drng by blast
    then have ns: "?T \<noteq> - 1" by simp
    have nex: "?T \<noteq> target"
      using res scan_exact [OF more ns] by auto
    from res have r: "scan tax sub target rate mode (disc + 1) hi
                (if \<bar>?T - target\<bar> < bdf then disc else bd)
                (if \<bar>?T - target\<bar> < bdf then \<bar>?T - target\<bar> else bdf) = Inr (bd', bdf')"
      by (simp only: scan_miss [OF more refl ns nex])
    have c: "covered tax sub target rate mode (disc + 1) hi
                (if \<bar>?T - target\<bar> < bdf then disc else bd)
                (if \<bar>?T - target\<bar> < bdf then \<bar>?T - target\<bar> else bdf)"
      by (rule covered_probe [OF cov drng(1,2) nex refl])
    show ?thesis
    proof (cases "\<bar>?T - target\<bar> < bdf")
      case True
      from "1.IH"(2) [OF more refl ns nex refl True _ nonneg drng(3) rng(2)] r c True
      show ?thesis by simp
    next
      case False
      from "1.IH"(3) [OF more refl ns nex refl False _ nonneg drng(3) rng(2)] r c False
      show ?thesis by simp
    qed
  qed
qed

section \<open>The solver returns an optimal outcome\<close>

lemma exactAt_optimal:
  "exactAt tax sub target rate mode lo hi res \<Longrightarrow> - sub \<le> lo \<Longrightarrow> hi \<le> sub \<Longrightarrow>
   optimalFor tax sub target rate mode res"
  by (auto simp: exactAt_def optimalFor_def)

lemma covered_optimal:
  assumes "covered tax sub target rate mode lo hi bd bdf" "hi < lo"
  shows "optimalFor tax sub target rate mode (bestOutcome tax sub target rate mode bd)"
proof -
  from assms(1) have bd: "- sub \<le> bd" "bd \<le> sub"
    and bdf: "bdf = \<bar>calculateTotal tax sub rate mode bd - target\<bar>"
    by (simp_all add: covered_def)
  have fin: "finalTotal (bestOutcome tax sub target rate mode bd)
               = calculateTotal tax sub rate mode bd"
    using bd by (simp add: bestOutcome_def Let_def calculateTotal_eq)
  have "\<bar>calculateTotal tax sub rate mode bd - target\<bar>
          \<le> \<bar>calculateTotal tax sub rate mode d - target\<bar>"
    if "- sub \<le> d" "d \<le> sub" for d
  proof -
    from assms(2) have "d < lo \<or> hi < d" by linarith
    with assms(1) that bdf show ?thesis unfolding covered_def by blast
  qed
  with fin bd show ?thesis
    by (simp add: optimalFor_def) (simp add: bestOutcome_def Let_def)
qed

lemma calculateAdjustment_optimalFor:
  assumes "0 \<le> subtotal p" "0 \<le> taxRate p" "taxRate p \<le> 1"
  shows "optimalFor applyTax (subtotal p) (targetTotal p) (taxRate p) (roundModeOrDefault p)
           (calculateAdjustment p)"
proof -
  let ?s = "subtotal p" and ?t = "targetTotal p" and ?r = "taxRate p"
    and ?m = "roundModeOrDefault p"
  let ?cur = "?s + applyTax ?s ?r ?m"
  have mono: "\<forall>a b. a \<le> b \<longrightarrow> applyTax a ?r ?m \<le> applyTax b ?r ?m"
    using applyTax_mono [OF assms(2)] by blast
  have nonneg: "\<forall>a. 0 \<le> a \<longrightarrow> 0 \<le> applyTax a ?r ?m"
    using applyTax_nonneg [OF assms(2)] by blast
  have T0: "calculateTotal applyTax ?s ?r ?m 0 = ?cur"
    using assms(1) by (simp add: calculateTotal_eq)
  show ?thesis
  proof (cases "?cur = ?t")
    case True
    then have "calculateAdjustment p = \<lparr>discount = 0, isValid = True, adjustedSubtotal = ?s,
            taxAmount = applyTax ?s ?r ?m, finalTotal = ?cur, error = None\<rparr>"
      using assms by (simp add: calculateAdjustment_def calculateAdjustment_on_def Let_def)
    with True assms(1) show ?thesis by (simp add: optimalFor_def)
  next
    case False
    have start: "covered applyTax ?s ?t ?r ?m (- ?s) ?s 0 \<bar>?cur - ?t\<bar>"
      using assms(1) T0 unfolding covered_def by auto
    have unf: "calculateAdjustment p =
       (case bisect applyTax ?s ?t ?r ?m (- ?s) ?s 0 \<bar>?cur - ?t\<bar> of
              Inl found \<Rightarrow> found
            | Inr (minDiscount, maxDiscount, bestDiscount, bestDifference) \<Rightarrow>
                (case scan applyTax ?s ?t ?r ?m minDiscount maxDiscount
                        bestDiscount bestDifference of
                   Inl found \<Rightarrow> found
                 | Inr (bestDiscount', bestDifference') \<Rightarrow>
                     bestOutcome applyTax ?s ?t ?r ?m bestDiscount'))"
      using assms False
      by (simp add: calculateAdjustment_def calculateAdjustment_on_def Let_def)
    show ?thesis
    proof (cases "bisect applyTax ?s ?t ?r ?m (- ?s) ?s 0 \<bar>?cur - ?t\<bar>")
      case (Inl found)
      from bisect_Inl [OF Inl] have "optimalFor applyTax ?s ?t ?r ?m found"
        by (rule exactAt_optimal) simp_all
      with Inl unf show ?thesis by simp
    next
      case (Inr q)
      obtain lo hi bd bdf where q: "q = (lo, hi, bd, bdf)" by (cases q) auto
      from bisect_Inr [OF Inr [unfolded q] mono nonneg _ _ start]
      have cov: "covered applyTax ?s ?t ?r ?m lo hi bd bdf" and rng: "- ?s \<le> lo" "hi \<le> ?s"
        by simp_all
      show ?thesis
      proof (cases "scan applyTax ?s ?t ?r ?m lo hi bd bdf")
        case (Inl found)
        from scan_Inl [OF Inl] rng have "optimalFor applyTax ?s ?t ?r ?m found"
          by (rule exactAt_optimal)
        with Inl Inr q unf show ?thesis by simp
      next
        case scanned: (Inr b)
        obtain bd' bdf' where b: "b = (bd', bdf')" by (cases b) auto
        from scan_Inr [OF scanned [unfolded b] nonneg rng cov]
        have "covered applyTax ?s ?t ?r ?m (hi + 1) hi bd' bdf'" .
        then have "optimalFor applyTax ?s ?t ?r ?m (bestOutcome applyTax ?s ?t ?r ?m bd')"
          by (rule covered_optimal) simp
        with scanned Inr q b unf show ?thesis by simp
      qed
    qed
  qed
qed

section \<open>The estimate-and-scan solver: its two loops and its window\<close>

lemma windowProbe_Some:
  "windowProbe sub rate mode est i = Some (d, ts, tx, tt) \<longleftrightarrow>
     d = est + i \<and> ts = sub - d \<and> 0 \<le> ts \<and> tx = applyTax ts rate mode \<and> tt = ts + tx"
  by (auto simp: windowProbe_def Let_def)

lemma windowProbe_None:
  "windowProbe sub rate mode est i = None \<longleftrightarrow> sub - (est + i) < 0"
  by (auto simp: windowProbe_def Let_def)

lemma firstExact_Some:
  "firstExact sub target rate mode est is = Some res \<Longrightarrow>
   exactAt applyTax sub target rate mode (discount res) (discount res) res"
proof (induction "is")
  case Nil
  then show ?case by simp
next
  case (Cons i "is")
  show ?case
  proof (cases "windowProbe sub rate mode est i")
    case None
    with Cons show ?thesis by simp
  next
    case (Some q)
    obtain d ts tx tt where q: "q = (d, ts, tx, tt)" by (cases q) auto
    from Some q have *: "d = est + i" "ts = sub - d" "0 \<le> ts" "tx = applyTax ts rate mode"
      "tt = ts + tx"
      by (simp_all add: windowProbe_Some)
    show ?thesis
    proof (cases "tt = target")
      case True
      with Cons.prems Some q * show ?thesis by (auto simp: exactAt_def)
    next
      case False
      with Cons Some q show ?thesis by simp
    qed
  qed
qed

lemma firstExact_finds:
  "i \<in> set is \<Longrightarrow> 0 \<le> sub - (est + i) \<Longrightarrow>
   (sub - (est + i)) + applyTax (sub - (est + i)) rate mode = target \<Longrightarrow>
   firstExact sub target rate mode est is \<noteq> None"
proof (induction "is")
  case Nil
  then show ?case by simp
next
  case (Cons j "is")
  show ?case
  proof (cases "windowProbe sub rate mode est j")
    case None
    then have "j \<noteq> i" using Cons.prems(2) by (auto simp: windowProbe_None)
    with Cons None show ?thesis by simp
  next
    case (Some q)
    obtain d ts tx tt where q: "q = (d, ts, tx, tt)" by (cases q) auto
    from Some q have *: "d = est + j" "ts = sub - d" "tx = applyTax ts rate mode"
      "tt = ts + tx"
      by (simp_all add: windowProbe_Some)
    show ?thesis
    proof (cases "tt = target")
      case True
      with Some q show ?thesis by simp
    next
      case False
      with * Cons.prems(3) have "j \<noteq> i" by auto
      with Cons Some q False show ?thesis by simp
    qed
  qed
qed

lemma closest_bounded:
  "closest sub target rate mode est is bd bdf = (bd', bdf') \<Longrightarrow> bd \<le> sub \<Longrightarrow> bd' \<le> sub"
proof (induction "is" arbitrary: bd bdf)
  case Nil
  then show ?case by simp
next
  case (Cons i "is")
  show ?case
  proof (cases "windowProbe sub rate mode est i")
    case None
    with Cons show ?thesis by simp
  next
    case (Some q)
    obtain d ts tx tt where q: "q = (d, ts, tx, tt)" by (cases q) auto
    from Some q have "d \<le> sub" by (simp add: windowProbe_Some)
    with Cons Some q show ?thesis
      by (cases "\<bar>tt - target\<bar> < bdf") (simp_all add: Let_def)
  qed
qed

lemma estimate_in_window:
  assumes rate: "0 \<le> rate" and d0: "d0 \<le> sub"
    and hit: "(sub - d0) + applyTax (sub - d0) rate mode = target"
    and diff: "diff = sub + applyTax sub rate mode - target"
    and small: "\<bar>diff\<bar> < 2 ^ 53"
  shows "\<bar>d0 - \<lfloor>toDouble (of_int diff / toDouble (1 + rate))\<rfloor>\<bar> \<le> \<bar>diff\<bar>"
proof -
  let ?c = "toDouble (1 + rate)"
  let ?q = "toDouble (of_int diff / ?c)"
  have "toDouble (of_int 1) \<le> ?c"
    using rate by (intro toDouble_mono) simp
  then have c: "1 \<le> ?c"
    using toDouble_of_int [of 1] by simp
  have exact: "toDouble (of_int diff) = of_int diff"
    using small by (rule toDouble_of_int)
  show ?thesis
  proof (cases "0 \<le> d0")
    case True
    then have "applyTax (sub - d0) rate mode \<le> applyTax sub rate mode"
      using rate by (intro applyTax_mono) simp_all
    with hit diff have dd: "d0 \<le> diff" by simp
    with True have nn: "0 \<le> diff" by simp
    have "0 \<le> (of_int diff :: rat) / ?c" using nn c by simp
    then have "toDouble 0 \<le> ?q" by (rule toDouble_mono)
    then have "0 \<le> ?q" by (simp add: toDouble_0)
    then have e0: "0 \<le> \<lfloor>?q\<rfloor>" by simp
    have "(of_int diff :: rat) / ?c \<le> of_int diff"
      using nn c by (simp add: divide_le_eq mult_le_cancel_left1)
    then have "?q \<le> toDouble (of_int diff)" by (rule toDouble_mono)
    then have "?q \<le> of_int diff" by (simp only: exact)
    then have "\<lfloor>?q\<rfloor> \<le> diff" by (simp add: floor_le_iff)
    with e0 dd True nn show ?thesis by linarith
  next
    case False
    then have neg: "d0 < 0" by simp
    then have "applyTax sub rate mode \<le> applyTax (sub - d0) rate mode"
      using rate by (intro applyTax_mono) simp_all
    with hit diff have dd: "diff \<le> d0" by simp
    with neg have dneg: "diff < 0" by simp
    have "(of_int diff :: rat) / ?c \<le> 0"
      using dneg c by (simp add: divide_le_0_iff)
    then have "?q \<le> toDouble 0" by (rule toDouble_mono)
    then have "?q \<le> 0" by (simp add: toDouble_0)
    then have e0: "\<lfloor>?q\<rfloor> \<le> 0" by (simp add: floor_le_iff)
    have "of_int diff \<le> (of_int diff :: rat) / ?c"
      using dneg c by (simp add: le_divide_eq mult_le_cancel_left2)
    then have "toDouble (of_int diff) \<le> ?q" by (rule toDouble_mono)
    then have "of_int diff \<le> ?q" by (simp only: exact)
    then have "diff \<le> \<lfloor>?q\<rfloor>" by (simp add: le_floor_iff)
    with e0 dd neg dneg show ?thesis by linarith
  qed
qed

lemma currentTotal_small:
  assumes "0 \<le> sub" "sub < 2 ^ 51" "\<bar>target\<bar> < 2 ^ 52" "0 \<le> rate" "rate \<le> 1"
  shows "\<bar>sub + applyTax sub rate mode - target\<bar> < 2 ^ 53"
proof -
  have "sub < 2 ^ 53" using assms(2) by simp
  then have "applyTax sub rate mode \<le> sub"
    using assms by (intro applyTax_le_amount) simp_all
  moreover have "0 \<le> applyTax sub rate mode"
    using assms by (intro applyTax_nonneg) simp_all
  ultimately show ?thesis using assms(1-3) by simp
qed

lemma estimate_finds_exact:
  assumes valid: "0 \<le> subtotal p" "0 \<le> taxRate p" "taxRate p \<le> 1"
    and small: "subtotal p < 2 ^ 51" "\<bar>targetTotal p\<bar> < 2 ^ 52"
    and d0: "d0 \<le> subtotal p"
    and hit: "(subtotal p - d0) + applyTax (subtotal p - d0) (taxRate p) (roundModeOrDefault p)
                = targetTotal p"
  shows "isValid (calculateAdjustment_estimate p) \<and>
         finalTotal (calculateAdjustment_estimate p) = targetTotal p"
proof -
  let ?s = "subtotal p" and ?t = "targetTotal p" and ?r = "taxRate p"
    and ?m = "roundModeOrDefault p"
  let ?cur = "?s + applyTax ?s ?r ?m"
  show ?thesis
  proof (cases "?cur = ?t")
    case True
    with valid show ?thesis by (simp add: calculateAdjustment_estimate_def Let_def)
  next
    case False
    let ?diff = "?cur - ?t"
    let ?est = "\<lfloor>toDouble (of_int ?diff / toDouble (1 + ?r))\<rfloor>"
    let ?R = "\<bar>\<lceil>(of_int ?diff :: rat)\<rceil>\<bar> + 100"
    let ?window = "[- ?R .. ?R]"
    have "\<bar>?diff\<bar> < 2 ^ 53"
      by (rule currentTotal_small [OF valid(1) small valid(2,3)])
    then have near: "\<bar>d0 - ?est\<bar> \<le> \<bar>?diff\<bar>"
      by (rule estimate_in_window [OF valid(2) d0 hit refl])
    have radius: "?R = \<bar>?diff\<bar> + 100"
      by (simp only: ceiling_of_int)
    have mem: "d0 - ?est \<in> set ?window"
      unfolding set_upto atLeastAtMost_iff radius using near by linarith
    have "firstExact ?s ?t ?r ?m ?est ?window \<noteq> None"
      by (rule firstExact_finds [OF mem]) (use d0 hit in simp_all)
    then obtain found where found: "firstExact ?s ?t ?r ?m ?est ?window = Some found"
      by blast
    then have res: "calculateAdjustment_estimate p = found"
      using valid False by (simp add: calculateAdjustment_estimate_def Let_def)
    from firstExact_Some [OF found] res show ?thesis by (simp add: exactAt_def)
  qed
qed

lemma bestOutcome_consistent:
  "consistentFor tax sub target rate mode (bestOutcome tax sub target rate mode bd)"
  by (simp add: consistentFor_def bestOutcome_def Let_def)

lemma exactAt_consistent:
  "exactAt tax sub target rate mode lo hi res \<Longrightarrow> consistentFor tax sub target rate mode res"
  by (auto simp: exactAt_def consistentFor_def)

lemma optimalFor_consistent:
  "optimalFor tax sub target rate mode res \<Longrightarrow> consistentFor tax sub target rate mode res"
  by (auto simp: optimalFor_def consistentFor_def)

lemma consistent_valid_eq:
  assumes "consistentFor tax sub target rate mode r" "consistentFor tax sub target rate mode r'"
    and "isValid r" "isValid r'" "discount r = discount r'"
  shows "r = r'"
  using assms by (intro AdjustmentResult.equality) (auto simp: consistentFor_def)

lemma exact_discount_unique:
  assumes rate: "0 \<le> rate" and le: "d1 \<le> sub" "d2 \<le> sub"
    and eq: "(sub - d1) + applyTax (sub - d1) rate mode = (sub - d2) + applyTax (sub - d2) rate mode"
  shows "d1 = d2"
proof (rule ccontr)
  assume "d1 \<noteq> d2"
  then consider "d1 < d2" | "d2 < d1" by linarith
  then show False
  proof cases
    case 1
    then have "applyTax (sub - d2) rate mode \<le> applyTax (sub - d1) rate mode"
      using rate by (intro applyTax_mono) simp_all
    with 1 eq show False by simp
  next
    case 2
    then have "applyTax (sub - d1) rate mode \<le> applyTax (sub - d2) rate mode"
      using rate by (intro applyTax_mono) simp_all
    with 2 eq show False by simp
  qed
qed

lemma estimate_consistent:
  assumes valid: "0 \<le> subtotal p" "0 \<le> taxRate p" "taxRate p \<le> 1"
  shows "discount (calculateAdjustment_estimate p) \<le> subtotal p \<and>
         consistentFor applyTax (subtotal p) (targetTotal p) (taxRate p) (roundModeOrDefault p)
           (calculateAdjustment_estimate p)"
proof -
  let ?s = "subtotal p" and ?t = "targetTotal p" and ?r = "taxRate p"
    and ?m = "roundModeOrDefault p"
  let ?cur = "?s + applyTax ?s ?r ?m"
  show ?thesis
  proof (cases "?cur = ?t")
    case True
    with valid show ?thesis
      by (simp add: calculateAdjustment_estimate_def Let_def consistentFor_def)
  next
    case False
    let ?diff = "?cur - ?t"
    let ?est = "\<lfloor>toDouble (of_int ?diff / toDouble (1 + ?r))\<rfloor>"
    let ?R = "\<bar>\<lceil>(of_int ?diff :: rat)\<rceil>\<bar> + 100"
    let ?window = "[- ?R .. ?R]"
    show ?thesis
    proof (cases "firstExact ?s ?t ?r ?m ?est ?window")
      case (Some found)
      then have res: "calculateAdjustment_estimate p = found"
        using valid False by (simp add: calculateAdjustment_estimate_def Let_def)
      from firstExact_Some [OF Some] res show ?thesis
        by (simp add: exactAt_consistent) (simp add: exactAt_def)
    next
      case None
      obtain bd bdf where c: "closest ?s ?t ?r ?m ?est ?window 0 \<bar>?cur - ?t\<bar> = (bd, bdf)"
        by (cases "closest ?s ?t ?r ?m ?est ?window 0 \<bar>?cur - ?t\<bar>") auto
      with None have res: "calculateAdjustment_estimate p = bestOutcome applyTax ?s ?t ?r ?m bd"
        using valid False by (simp add: calculateAdjustment_estimate_def Let_def)
      from closest_bounded [OF c valid(1)] res show ?thesis
        by (simp add: bestOutcome_consistent) (simp add: bestOutcome_def Let_def)
    qed
  qed
qed

lemma estimate_discount_bounded:
  assumes valid: "0 \<le> subtotal p" "0 \<le> taxRate p" "taxRate p \<le> 1"
  shows "discount (calculateAdjustment_estimate p) \<le> subtotal p \<and>
         adjustedSubtotal (calculateAdjustment_estimate p)
           = subtotal p - discount (calculateAdjustment_estimate p)"
  using estimate_consistent [OF valid] by (simp add: consistentFor_def)

lemma invalid_input_outcomes:
  assumes "\<not> (0 \<le> subtotal p \<and> 0 \<le> taxRate p \<and> taxRate p \<le> 1)"
  shows "calculateAdjustment_estimate p = calculateAdjustment p"
    and "\<not> isValid (calculateAdjustment p)"
  using assms
  by (auto simp: calculateAdjustment_estimate_def calculateAdjustment_def
      calculateAdjustment_on_def Let_def)

lemma bisect_valid_imp_same:
  assumes valid: "0 \<le> subtotal p" "0 \<le> taxRate p" "taxRate p \<le> 1"
    and small: "subtotal p < 2 ^ 51" "\<bar>targetTotal p\<bar> < 2 ^ 52"
    and bv: "isValid (calculateAdjustment p)"
  shows "calculateAdjustment_estimate p = calculateAdjustment p"
proof -
  let ?s = "subtotal p" and ?t = "targetTotal p" and ?r = "taxRate p"
    and ?m = "roundModeOrDefault p"
  let ?b = "calculateAdjustment p" and ?e = "calculateAdjustment_estimate p"
  note optb = calculateAdjustment_optimalFor [OF valid]
  note cb = optimalFor_consistent [OF optb]
  from estimate_consistent [OF valid] have de: "discount ?e \<le> ?s"
    and ce: "consistentFor applyTax ?s ?t ?r ?m ?e" by simp_all
  from optb have db: "discount ?b \<le> ?s" by (simp add: optimalFor_def)
  from cb bv have hitb: "(?s - discount ?b) + applyTax (?s - discount ?b) ?r ?m = ?t"
    by (auto simp: consistentFor_def)
  from estimate_finds_exact [OF valid small db hitb]
  have ev: "isValid ?e" by simp
  with ce have hite: "(?s - discount ?e) + applyTax (?s - discount ?e) ?r ?m = ?t"
    by (auto simp: consistentFor_def)
  have "discount ?e = discount ?b"
    using hite hitb
    by (intro exact_discount_unique [OF valid(2) de db, where mode = "roundModeOrDefault p"])
      simp
  with ce cb ev bv show ?thesis by (intro consistent_valid_eq)
qed

lemma estimate_valid_in_range_imp_same:
  assumes ev: "isValid (calculateAdjustment_estimate p)"
    and lo: "- subtotal p \<le> discount (calculateAdjustment_estimate p)"
  shows "calculateAdjustment p = calculateAdjustment_estimate p"
proof -
  let ?s = "subtotal p" and ?t = "targetTotal p" and ?r = "taxRate p"
    and ?m = "roundModeOrDefault p"
  let ?b = "calculateAdjustment p" and ?e = "calculateAdjustment_estimate p"
  have "0 \<le> subtotal p \<and> 0 \<le> taxRate p \<and> taxRate p \<le> 1"
  proof (rule ccontr)
    assume inv: "\<not> (0 \<le> subtotal p \<and> 0 \<le> taxRate p \<and> taxRate p \<le> 1)"
    from invalid_input_outcomes [OF inv] ev show False by simp
  qed
  then have valid: "0 \<le> subtotal p" "0 \<le> taxRate p" "taxRate p \<le> 1"
    by simp_all
  note optb = calculateAdjustment_optimalFor [OF valid]
  note cb = optimalFor_consistent [OF optb]
  from estimate_consistent [OF valid] have de: "discount ?e \<le> ?s"
    and ce: "consistentFor applyTax ?s ?t ?r ?m ?e" by simp_all
  from ce ev have hite: "(?s - discount ?e) + applyTax (?s - discount ?e) ?r ?m = ?t"
    by (auto simp: consistentFor_def)
  from optb lo de have "\<bar>finalTotal ?b - ?t\<bar>
      \<le> \<bar>calculateTotal applyTax ?s ?r ?m (discount ?e) - ?t\<bar>"
    unfolding optimalFor_def by blast
  with hite de have "finalTotal ?b = ?t" by (simp add: calculateTotal_eq)
  with cb have bv: "isValid ?b"
    and hitb: "(?s - discount ?b) + applyTax (?s - discount ?b) ?r ?m = ?t"
    by (auto simp: consistentFor_def)
  from optb have db: "discount ?b \<le> ?s" by (simp add: optimalFor_def)
  have "discount ?b = discount ?e"
    using hite hitb
    by (intro exact_discount_unique [OF valid(2) db de, where mode = "roundModeOrDefault p"])
      simp
  with ce cb ev bv show ?thesis by (intro consistent_valid_eq)
qed

section \<open>Worked values of the tax primitive\<close>

text \<open>
  Claim C9. At amount 105 and rate \<open>0.1\<close> the binary64 product is exactly 10.5: the
  floor mode yields 10, the ceiling mode 11 and the nearest mode (\<open>round\<close> in the
  source) 11, the half rounding up.
\<close>

theorem applyTax_modes_105:
  "applyTax 105 (toDouble (1 / 10)) Floor = 10 \<and> applyTax 105 (toDouble (1 / 10)) Ceil = 11
     \<and> applyTax 105 (toDouble (1 / 10)) Round = 11"
  by code_simp

text \<open>
  The same primitive at inputs where the binary64 product differs from the exact one:
  \<open>100 * 0.07\<close> lies just above 7, \<open>100 * 0.57\<close> just below 57 and \<open>50 * 0.57\<close> just
  below 28.5.
\<close>

lemma applyTax_inexact_products:
  "applyTax 100 (toDouble (7 / 100)) Ceil = 8 \<and> applyTax 100 (toDouble (57 / 100)) Floor = 56
     \<and> applyTax 50 (toDouble (57 / 100)) Round = 28"
  by code_simp

lemma tenth_in_range: "0 \<le> toDouble (1 / 10) \<and> toDouble (1 / 10) \<le> 1"
  by code_simp

section \<open>Optimality of the bisection solver\<close>

text \<open>
  Claim C1. For a request with \<open>0 \<le> subtotal\<close> and \<open>taxRate\<close> in \<open>[0, 1]\<close>: if some
  discount \<open>d\<close> of \<open>[-subtotal, subtotal]\<close> satisfies
  \<open>(subtotal - d) + applyTax (subtotal - d) taxRate roundMode = targetTotal\<close>, the outcome
  has \<open>isValid\<close> set and \<open>finalTotal = targetTotal\<close>; otherwise the outcome's
  \<open>finalTotal\<close> is the total at its own discount, which lies in that interval, and no
  discount of the interval yields a total closer to \<open>targetTotal\<close>. Here \<open>applyTax\<close> is
  the primitive of the source with its binary64 product: at subtotal 100, rate \<open>0.07\<close> and
  ceiling rounding the current total is 108 and no discount yields 107, while at subtotal
  96, rate \<open>0.29\<close> and nearest rounding the discount 46 yields 50 + 14 = 64.
\<close>

theorem calculateAdjustment_optimal:
  assumes "0 \<le> subtotal p" "0 \<le> taxRate p" "taxRate p \<le> 1"
  shows "if \<exists>d. - subtotal p \<le> d \<and> d \<le> subtotal p \<and>
               (subtotal p - d) + applyTax (subtotal p - d) (taxRate p) (roundModeOrDefault p)
                 = targetTotal p
         then isValid (calculateAdjustment p) \<and>
              finalTotal (calculateAdjustment p) = targetTotal p
         else - subtotal p \<le> discount (calculateAdjustment p) \<and>
              discount (calculateAdjustment p) \<le> subtotal p \<and>
              finalTotal (calculateAdjustment p)
                = (subtotal p - discount (calculateAdjustment p))
                  + applyTax (subtotal p - discount (calculateAdjustment p)) (taxRate p)
                      (roundModeOrDefault p) \<and>
              (\<forall>d. - subtotal p \<le> d \<and> d \<le> subtotal p \<longrightarrow>
                 \<bar>finalTotal (calculateAdjustment p) - targetTotal p\<bar>
                   \<le> \<bar>(subtotal p - d)
                        + applyTax (subtotal p - d) (taxRate p) (roundModeOrDefault p)
                        - targetTotal p\<bar>)"
proof -
  let ?res = "calculateAdjustment p"
  let ?tot = "\<lambda>d. (subtotal p - d)
                 + applyTax (subtotal p - d) (taxRate p) (roundModeOrDefault p)"
  note opt = calculateAdjustment_optimalFor [OF assms, unfolded optimalFor_def]
  have closest: "\<bar>finalTotal ?res - targetTotal p\<bar> \<le> \<bar>?tot d - targetTotal p\<bar>"
    if "- subtotal p \<le> d" "d \<le> subtotal p" for d
    using opt that calculateTotal_eq [OF that(2), of applyTax "taxRate p" "roundModeOrDefault p"]
    by auto
  show ?thesis
  proof (cases "\<exists>d. - subtotal p \<le> d \<and> d \<le> subtotal p \<and> ?tot d = targetTotal p")
    case True
    then obtain d where "- subtotal p \<le> d" "d \<le> subtotal p" "?tot d = targetTotal p"
      by blast
    with closest [of d] have "finalTotal ?res = targetTotal p" by simp
    with opt True show ?thesis by simp
  next
    case False
    moreover have "finalTotal ?res = ?tot (discount ?res)"
      using opt by simp
    ultimately show ?thesis using opt closest by simp
  qed
qed

theorem calculateAdjustment_optimal_witness:
  "isValid (calculateAdjustment
      \<lparr>subtotal = 96, targetTotal = 64, taxRate = toDouble (29 / 100),
       roundMode = Some Round\<rparr>) \<and>
   finalTotal (calculateAdjustment
      \<lparr>subtotal = 96, targetTotal = 64, taxRate = toDouble (29 / 100),
       roundMode = Some Round\<rparr>) = 64 \<and>
   - 100 \<le> discount (calculateAdjustment
      \<lparr>subtotal = 100, targetTotal = 107, taxRate = toDouble (7 / 100),
       roundMode = Some Ceil\<rparr>) \<and>
   discount (calculateAdjustment
      \<lparr>subtotal = 100, targetTotal = 107, taxRate = toDouble (7 / 100),
       roundMode = Some Ceil\<rparr>) \<le> 100 \<and>
   \<bar>finalTotal (calculateAdjustment
      \<lparr>subtotal = 100, targetTotal = 107, taxRate = toDouble (7 / 100),
       roundMode = Some Ceil\<rparr>) - 107\<bar> \<le> 1"
proof -
  let ?p = "\<lparr>subtotal = 96, targetTotal = 64, taxRate = toDouble (29 / 100),
             roundMode = Some Round\<rparr>"
  let ?q = "\<lparr>subtotal = 100, targetTotal = 107, taxRate = toDouble (7 / 100),
             roundMode = Some Ceil\<rparr>"
  have t50: "applyTax 50 (toDouble (29 / 100)) Round = 14" by code_simp
  have ex: "\<exists>d. - subtotal ?p \<le> d \<and> d \<le> subtotal ?p \<and>
               (subtotal ?p - d) + applyTax (subtotal ?p - d) (taxRate ?p) (roundModeOrDefault ?p)
                 = targetTotal ?p"
    by (rule exI [of _ 46]) (simp add: roundModeOrDefault_def t50)
  have rp: "0 \<le> toDouble (29 / 100)" "toDouble (29 / 100) \<le> 1" by code_simp+
  then have vp: "0 \<le> subtotal ?p" "0 \<le> taxRate ?p" "taxRate ?p \<le> 1" by simp_all
  have hit: "isValid (calculateAdjustment ?p) \<and>
             finalTotal (calculateAdjustment ?p) = targetTotal ?p"
    using calculateAdjustment_optimal [OF vp] unfolding if_P [OF ex] .
  have rq: "0 \<le> toDouble (7 / 100)" "toDouble (7 / 100) \<le> 1" by code_simp+
  then have vq: "0 \<le> subtotal ?q" "0 \<le> taxRate ?q" "taxRate ?q \<le> 1" by simp_all
  have t100: "applyTax 100 (toDouble (7 / 100)) Ceil = 8" by code_simp
  have t99: "applyTax 99 (toDouble (7 / 100)) Ceil = 7" by code_simp
  have skip: "(100 - d) + applyTax (100 - d) (toDouble (7 / 100)) Ceil \<noteq> 107" for d
  proof (cases "d \<le> 0")
    case True
    then have "applyTax 100 (toDouble (7 / 100)) Ceil \<le> applyTax (100 - d) (toDouble (7 / 100)) Ceil"
      using rq(1) by (intro applyTax_mono) simp_all
    with True t100 show ?thesis by simp
  next
    case False
    then have "applyTax (100 - d) (toDouble (7 / 100)) Ceil \<le> applyTax 99 (toDouble (7 / 100)) Ceil"
      using rq(1) by (intro applyTax_mono) simp_all
    with False t99 show ?thesis by simp
  qed
  have nex: "\<not> (\<exists>d. - subtotal ?q \<le> d \<and> d \<le> subtotal ?q \<and>
               (subtotal ?q - d) + applyTax (subtotal ?q - d) (taxRate ?q) (roundModeOrDefault ?q)
                 = targetTotal ?q)"
    using skip by (simp add: roundModeOrDefault_def)
  have miss: "- subtotal ?q \<le> discount (calculateAdjustment ?q) \<and>
              discount (calculateAdjustment ?q) \<le> subtotal ?q \<and>
              finalTotal (calculateAdjustment ?q)
                = (subtotal ?q - discount (calculateAdjustment ?q))
                  + applyTax (subtotal ?q - discount (calculateAdjustment ?q)) (taxRate ?q)
                      (roundModeOrDefault ?q) \<and>
              (\<forall>d. - subtotal ?q \<le> d \<and> d \<le> subtotal ?q \<longrightarrow>
                 \<bar>finalTotal (calculateAdjustment ?q) - targetTotal ?q\<bar>
                   \<le> \<bar>(subtotal ?q - d)
                        + applyTax (subtotal ?q - d) (taxRate ?q) (roundModeOrDefault ?q)
                        - targetTotal ?q\<bar>)"
    using calculateAdjustment_optimal [OF vq] unfolding if_not_P [OF nex] .
  then have "- subtotal ?q \<le> 0 \<and> 0 \<le> subtotal ?q \<longrightarrow>
                 \<bar>finalTotal (calculateAdjustment ?q) - targetTotal ?q\<bar>
                   \<le> \<bar>(subtotal ?q - 0)
                        + applyTax (subtotal ?q - 0) (taxRate ?q) (roundModeOrDefault ?q)
                        - targetTotal ?q\<bar>"
    by blast
  then have near: "\<bar>finalTotal (calculateAdjustment ?q) - 107\<bar> \<le> 1"
    by (simp add: roundModeOrDefault_def t100)
  from miss have "- 100 \<le> discount (calculateAdjustment ?q) \<and>
      discount (calculateAdjustment ?q) \<le> 100"
    by simp
  with hit near show ?thesis by simp
qed

section \<open>The two solvers compared\<close>

text \<open>
  Claim C2, as stated, fails in two ways.

  The flags can differ. Take subtotal 0, target 1 and rate 0, so that the current total
  is 0. The bisection solver starts from the interval \<open>[0, 0]\<close>, skips its while loop,
  probes discount 0 in the residual scan (total 0, difference 1, not below the initial
  best difference 1) and returns the best discount 0 with total 0 and \<open>isValid\<close> unset.
  The estimate-and-scan solver computes \<open>totalDifference = -1\<close>, \<open>initialEstimate = -1\<close>
  and \<open>searchRadius = 101\<close>; its first loop meets no match before \<open>i = 0\<close>, where the
  discount \<open>-1\<close> gives the subtotal 1 and the total 1, and returns an exact match. Its
  window is not confined to \<open>[-subtotal, subtotal]\<close>.

  With both flags unset the totals can differ. Take subtotal 7, target 11, rate 1 and
  floor rounding, so that every total is twice the adjusted subtotal and the current total
  is 14, at distance 3. The totals next to the target are 12 (discount 1) and 10 (discount
  2), both at distance 1. The bisection solver probes the discounts 0, 4 and 2, keeps
  discount 2, and its residual scan finds discount 1 no closer: it reports 10. The
  estimate-and-scan solver walks its window from the largest surcharge downwards, meets
  discount 1 before discount 2 and reports 12.
\<close>

theorem variants_differ_counterexample:
  "\<not> isValid (calculateAdjustment
        \<lparr>subtotal = 0, targetTotal = 1, taxRate = 0, roundMode = None\<rparr>) \<and>
   finalTotal (calculateAdjustment
        \<lparr>subtotal = 0, targetTotal = 1, taxRate = 0, roundMode = None\<rparr>) = 0 \<and>
   isValid (calculateAdjustment_estimate
        \<lparr>subtotal = 0, targetTotal = 1, taxRate = 0, roundMode = None\<rparr>) \<and>
   finalTotal (calculateAdjustment_estimate
        \<lparr>subtotal = 0, targetTotal = 1, taxRate = 0, roundMode = None\<rparr>) = 1 \<and>
   \<not> isValid (calculateAdjustment
        \<lparr>subtotal = 7, targetTotal = 11, taxRate = 1, roundMode = Some Floor\<rparr>) \<and>
   finalTotal (calculateAdjustment
        \<lparr>subtotal = 7, targetTotal = 11, taxRate = 1, roundMode = Some Floor\<rparr>) = 10 \<and>
   \<not> isValid (calculateAdjustment_estimate
        \<lparr>subtotal = 7, targetTotal = 11, taxRate = 1, roundMode = Some Floor\<rparr>) \<and>
   finalTotal (calculateAdjustment_estimate
        \<lparr>subtotal = 7, targetTotal = 11, taxRate = 1, roundMode = Some Floor\<rparr>) = 12"
  by code_simp

text \<open>
  Claim C2, amended. The two solvers return the same outcome, hence the same \<open>isValid\<close>
  flag and the same \<open>finalTotal\<close>,
  \<^item> for every request that fails validation;
  \<^item> for every request on which the bisection solver reports an exact match, the amounts
    being in the range where binary64 holds every total exactly (\<open>subtotal < 2 ^ 51\<close> and
    \<open>\<bar>targetTotal\<bar> < 2 ^ 52\<close>);
  \<^item> for every request on which the estimate-and-scan solver reports an exact match at a
    discount of at least \<open>-subtotal\<close>.
  So the flags differ only when the estimate-and-scan solver finds its match at a discount
  below \<open>-subtotal\<close>; when neither solver finds a match, nothing is claimed about which
  closest total each reports.
\<close>

theorem variants_agree_in_range:
  "(\<not> (0 \<le> subtotal p \<and> 0 \<le> taxRate p \<and> taxRate p \<le> 1) \<longrightarrow>
      calculateAdjustment_estimate p = calculateAdjustment p) \<and>
   (subtotal p < 2 ^ 51 \<and> \<bar>targetTotal p\<bar> < 2 ^ 52 \<and> isValid (calculateAdjustment p) \<longrightarrow>
      calculateAdjustment_estimate p = calculateAdjustment p \<and>
      finalTotal (calculateAdjustment p) = targetTotal p) \<and>
   (isValid (calculateAdjustment_estimate p) \<and>
    - subtotal p \<le> discount (calculateAdjustment_estimate p) \<longrightarrow>
      calculateAdjustment p = calculateAdjustment_estimate p \<and>
      finalTotal (calculateAdjustment_estimate p) = targetTotal p)"
proof (intro conjI impI)
  assume "\<not> (0 \<le> subtotal p \<and> 0 \<le> taxRate p \<and> taxRate p \<le> 1)"
  then show "calculateAdjustment_estimate p = calculateAdjustment p"
    by (rule invalid_input_outcomes(1))
next
  assume a: "subtotal p < 2 ^ 51 \<and> \<bar>targetTotal p\<bar> < 2 ^ 52 \<and> isValid (calculateAdjustment p)"
  have valid: "0 \<le> subtotal p" "0 \<le> taxRate p" "taxRate p \<le> 1"
    using a invalid_input_outcomes(2) [of p] by blast+
  from a have small: "subtotal p < 2 ^ 51" "\<bar>targetTotal p\<bar> < 2 ^ 52"
    and bv: "isValid (calculateAdjustment p)"
    by simp_all
  show "calculateAdjustment_estimate p = calculateAdjustment p"
    by (rule bisect_valid_imp_same [OF valid small bv])
  from bv calculateAdjustment_optimalFor [OF valid]
  show "finalTotal (calculateAdjustment p) = targetTotal p"
    unfolding optimalFor_def by blast
next
  assume a: "isValid (calculateAdjustment_estimate p) \<and>
    - subtotal p \<le> discount (calculateAdjustment_estimate p)"
  then have ev: "isValid (calculateAdjustment_estimate p)"
    and lo: "- subtotal p \<le> discount (calculateAdjustment_estimate p)"
    by simp_all
  show same: "calculateAdjustment p = calculateAdjustment_estimate p"
    by (rule estimate_valid_in_range_imp_same [OF ev lo])
  have valid: "0 \<le> subtotal p" "0 \<le> taxRate p" "taxRate p \<le> 1"
    using a same invalid_input_outcomes(2) [of p] by auto
  from ev estimate_consistent [OF valid]
  show "finalTotal (calculateAdjustment_estimate p) = targetTotal p"
    unfolding consistentFor_def by blast
qed

theorem variants_agree_in_range_witness:
  "calculateAdjustment_estimate
      \<lparr>subtotal = - 3, targetTotal = 55, taxRate = toDouble (1 / 10), roundMode = None\<rparr>
   = calculateAdjustment
      \<lparr>subtotal = - 3, targetTotal = 55, taxRate = toDouble (1 / 10), roundMode = None\<rparr> \<and>
   calculateAdjustment_estimate
      \<lparr>subtotal = 1000, targetTotal = 1200, taxRate = toDouble (1 / 10),
       roundMode = Some Floor\<rparr>
   = calculateAdjustment
      \<lparr>subtotal = 1000, targetTotal = 1200, taxRate = toDouble (1 / 10),
       roundMode = Some Floor\<rparr> \<and>
   calculateAdjustment
      \<lparr>subtotal = 10, targetTotal = 15, taxRate = 0, roundMode = None\<rparr>
   = calculateAdjustment_estimate
      \<lparr>subtotal = 10, targetTotal = 15, taxRate = 0, roundMode = None\<rparr>"
proof -
  let ?n = "\<lparr>subtotal = - 3, targetTotal = 55, taxRate = toDouble (1 / 10), roundMode = None\<rparr>"
  let ?p = "\<lparr>subtotal = 1000, targetTotal = 1200, taxRate = toDouble (1 / 10),
             roundMode = Some Floor\<rparr>"
  let ?q = "\<lparr>subtotal = 10, targetTotal = 15, taxRate = 0, roundMode = None\<rparr>"
  have "\<not> (0 \<le> subtotal ?n \<and> 0 \<le> taxRate ?n \<and> taxRate ?n \<le> 1)" by simp
  with variants_agree_in_range [of ?n]
  have n: "calculateAdjustment_estimate ?n = calculateAdjustment ?n" by blast
  have "isValid (calculateAdjustment ?p)" by code_simp
  then have "subtotal ?p < 2 ^ 51 \<and> \<bar>targetTotal ?p\<bar> < 2 ^ 52 \<and> isValid (calculateAdjustment ?p)"
    by simp
  with variants_agree_in_range [of ?p]
  have p: "calculateAdjustment_estimate ?p = calculateAdjustment ?p" by blast
  have "isValid (calculateAdjustment_estimate ?q)"
    "- subtotal ?q \<le> discount (calculateAdjustment_estimate ?q)"
    by code_simp+
  with variants_agree_in_range [of ?q]
  have q: "calculateAdjustment ?q = calculateAdjustment_estimate ?q" by blast
  from n p q show ?thesis by blast
qed

section \<open>Flags of the outcome\<close>

text \<open>
  Claim C3, as stated, fails on validation failures: with subtotal \<open>-5\<close> and target
  \<open>-5\<close> the first validation branch returns \<open>finalTotal = subtotal = -5\<close>, equal to the
  target, with \<open>isValid\<close> unset.
\<close>

theorem isValid_iff_counterexample:
  "finalTotal (calculateAdjustment
        \<lparr>subtotal = - 5, targetTotal = - 5, taxRate = toDouble (1 / 10), roundMode = None\<rparr>)
     = targetTotal \<lparr>subtotal = - 5, targetTotal = - 5, taxRate = toDouble (1 / 10), roundMode = None\<rparr> \<and>
   \<not> isValid (calculateAdjustment
        \<lparr>subtotal = - 5, targetTotal = - 5, taxRate = toDouble (1 / 10), roundMode = None\<rparr>)"
  by code_simp

text \<open>
  Claim C3, amended. For a request that passes validation, \<open>isValid\<close> holds if and only
  if \<open>finalTotal = targetTotal\<close>; for a request that fails validation \<open>isValid\<close> is
  unset; and for every request the \<open>error\<close> field is present if and only if \<open>isValid\<close>
  is unset.
\<close>

theorem isValid_error_flags:
  "(0 \<le> subtotal p \<and> 0 \<le> taxRate p \<and> taxRate p \<le> 1 \<longrightarrow>
      (isValid (calculateAdjustment p) \<longleftrightarrow> finalTotal (calculateAdjustment p) = targetTotal p)) \<and>
   (\<not> (0 \<le> subtotal p \<and> 0 \<le> taxRate p \<and> taxRate p \<le> 1) \<longrightarrow>
      \<not> isValid (calculateAdjustment p)) \<and>
   (error (calculateAdjustment p) \<noteq> None \<longleftrightarrow> \<not> isValid (calculateAdjustment p))"
proof (cases "0 \<le> subtotal p \<and> 0 \<le> taxRate p \<and> taxRate p \<le> 1")
  case True
  then have "optimalFor applyTax (subtotal p) (targetTotal p) (taxRate p) (roundModeOrDefault p)
           (calculateAdjustment p)"
    by (intro calculateAdjustment_optimalFor) simp_all
  with True show ?thesis by (simp add: optimalFor_def)
next
  case False
  then show ?thesis
    by (auto simp: calculateAdjustment_def calculateAdjustment_on_def Let_def)
qed

theorem isValid_error_flags_witness:
  "isValid (calculateAdjustment
      \<lparr>subtotal = 100, targetTotal = 55, taxRate = toDouble (1 / 10), roundMode = None\<rparr>) \<and>
   error (calculateAdjustment
      \<lparr>subtotal = 100, targetTotal = 55, taxRate = toDouble (1 / 10), roundMode = None\<rparr>) = None \<and>
   \<not> isValid (calculateAdjustment
      \<lparr>subtotal = 100, targetTotal = 55, taxRate = 3 / 2, roundMode = None\<rparr>) \<and>
   error (calculateAdjustment
      \<lparr>subtotal = 100, targetTotal = 55, taxRate = 3 / 2, roundMode = None\<rparr>) \<noteq> None"
proof -
  let ?p = "\<lparr>subtotal = 100, targetTotal = 55, taxRate = toDouble (1 / 10), roundMode = None\<rparr>"
  let ?q = "\<lparr>subtotal = 100, targetTotal = 55, taxRate = 3 / 2, roundMode = None\<rparr>"
  have f: "finalTotal (calculateAdjustment ?p) = 55" by code_simp
  have "0 \<le> subtotal ?p \<and> 0 \<le> taxRate ?p \<and> taxRate ?p \<le> 1"
    using tenth_in_range by simp
  with isValid_error_flags [of ?p] f
  have "isValid (calculateAdjustment ?p) \<and> error (calculateAdjustment ?p) = None" by auto
  moreover have "\<not> (0 \<le> subtotal ?q \<and> 0 \<le> taxRate ?q \<and> taxRate ?q \<le> 1)" by simp
  with isValid_error_flags [of ?q]
  have "\<not> isValid (calculateAdjustment ?q) \<and> error (calculateAdjustment ?q) \<noteq> None" by blast
  ultimately show ?thesis by blast
qed

section \<open>Monotonicity\<close>

text \<open>
  Claim C4. The tax primitive is the binary64 product \<open>amount * taxRate\<close> followed by
  \<open>Math.floor\<close>, \<open>Math.ceil\<close> or \<open>Math.round\<close>. For \<open>0 \<le> subtotal\<close> and a rate in
  \<open>[0, 1]\<close>, the total
  \<open>(subtotal - d) + applyTax (subtotal - d) taxRate roundMode\<close> does not increase as \<open>d\<close>
  increases over \<open>[-subtotal, subtotal]\<close> (stated both for the formula and for the
  solver's \<open>calculateTotal\<close>), and \<open>applyTax\<close> is non-decreasing in its amount for each
  rounding mode.
\<close>

theorem total_nonincreasing:
  assumes "0 \<le> sub" "0 \<le> rate" "rate \<le> 1" "- sub \<le> d1" "d1 \<le> d2" "d2 \<le> sub"
  shows "(sub - d2) + applyTax (sub - d2) rate mode
           \<le> (sub - d1) + applyTax (sub - d1) rate mode \<and>
         calculateTotal applyTax sub rate mode d2 \<le> calculateTotal applyTax sub rate mode d1 \<and>
         (\<forall>a b. a \<le> b \<longrightarrow> applyTax a rate mode \<le> applyTax b rate mode)"
proof -
  have "applyTax (sub - d2) rate mode \<le> applyTax (sub - d1) rate mode"
    using assms by (intro applyTax_mono) simp_all
  then have "(sub - d2) + applyTax (sub - d2) rate mode
           \<le> (sub - d1) + applyTax (sub - d1) rate mode"
    using assms by simp
  then show ?thesis
    using assms applyTax_mono [OF assms(2)] by (simp add: calculateTotal_eq)
qed

theorem total_nonincreasing_witness:
  "(100 - 1) + applyTax (100 - 1) (toDouble (7 / 100)) Ceil
           \<le> (100 - 0) + applyTax (100 - 0) (toDouble (7 / 100)) Ceil \<and>
   calculateTotal applyTax 100 (toDouble (7 / 100)) Ceil 1
           \<le> calculateTotal applyTax 100 (toDouble (7 / 100)) Ceil 0 \<and>
   applyTax 99 (toDouble (7 / 100)) Ceil \<le> applyTax 100 (toDouble (7 / 100)) Ceil"
proof -
  have r: "0 \<le> toDouble (7 / 100)" "toDouble (7 / 100) \<le> 1" by code_simp+
  have "(0::int) \<le> 100" "- 100 \<le> (0::int)" "(0::int) \<le> 1" "(1::int) \<le> 100" by simp_all
  from total_nonincreasing [OF this(1) r this(2-4), of Ceil] show ?thesis by simp
qed

section \<open>Range of the returned discount\<close>

text \<open>
  Claim C5, as stated, fails for the estimate-and-scan solver. Take subtotal 10, target 33
  and rate 0: the current total is 10, \<open>totalDifference = -23\<close>, \<open>initialEstimate = -23\<close>
  and \<open>searchRadius = 123\<close>. The candidates before \<open>i = 0\<close> have totals above 33; at
  \<open>i = 0\<close> the discount \<open>-23\<close> gives the subtotal 33 and the total 33, and the solver
  returns it: a discount below \<open>-subtotal\<close> and an adjusted subtotal above \<open>2 * subtotal\<close>.
  The only bound this solver puts on a candidate is \<open>testSubtotal \<ge> 0\<close>.
\<close>

theorem estimate_discount_counterexample:
  "\<not> (- subtotal \<lparr>subtotal = 10, targetTotal = 33, taxRate = 0, roundMode = None\<rparr>
        \<le> discount (calculateAdjustment_estimate
             \<lparr>subtotal = 10, targetTotal = 33, taxRate = 0, roundMode = None\<rparr>)) \<and>
   \<not> (adjustedSubtotal (calculateAdjustment_estimate
             \<lparr>subtotal = 10, targetTotal = 33, taxRate = 0, roundMode = None\<rparr>)
        \<le> 2 * subtotal \<lparr>subtotal = 10, targetTotal = 33, taxRate = 0, roundMode = None\<rparr>)"
  by code_simp

text \<open>
  Claim C5, amended. For a request that passes validation the bisection solver returns a
  discount in \<open>[-subtotal, subtotal]\<close>, that is \<open>0 \<le> adjustedSubtotal \<le> 2 * subtotal\<close>;
  the estimate-and-scan solver returns a discount of at most \<open>subtotal\<close>, that is
  \<open>0 \<le> adjustedSubtotal\<close>. In both, the adjusted subtotal is non-negative whether or not
  \<open>isValid\<close> is set.
\<close>

theorem discount_bounds:
  assumes "0 \<le> subtotal p" "0 \<le> taxRate p" "taxRate p \<le> 1"
  shows "- subtotal p \<le> discount (calculateAdjustment p) \<and>
         discount (calculateAdjustment p) \<le> subtotal p \<and>
         0 \<le> adjustedSubtotal (calculateAdjustment p) \<and>
         adjustedSubtotal (calculateAdjustment p) \<le> 2 * subtotal p \<and>
         discount (calculateAdjustment_estimate p) \<le> subtotal p \<and>
         0 \<le> adjustedSubtotal (calculateAdjustment_estimate p)"
  using calculateAdjustment_optimalFor [OF assms, unfolded optimalFor_def]
    estimate_discount_bounded [OF assms]
  by simp

theorem discount_bounds_witness:
  "- 10 \<le> discount (calculateAdjustment
       \<lparr>subtotal = 10, targetTotal = 33, taxRate = toDouble (1 / 10), roundMode = None\<rparr>) \<and>
   discount (calculateAdjustment
       \<lparr>subtotal = 10, targetTotal = 33, taxRate = toDouble (1 / 10), roundMode = None\<rparr>) \<le> 10 \<and>
   0 \<le> adjustedSubtotal (calculateAdjustment
       \<lparr>subtotal = 10, targetTotal = 33, taxRate = toDouble (1 / 10), roundMode = None\<rparr>) \<and>
   0 \<le> adjustedSubtotal (calculateAdjustment_estimate
       \<lparr>subtotal = 10, targetTotal = 33, taxRate = toDouble (1 / 10), roundMode = None\<rparr>)"
  using discount_bounds [of "\<lparr>subtotal = 10, targetTotal = 33, taxRate = toDouble (1 / 10), roundMode = None\<rparr>"]
  using tenth_in_range by simp

section \<open>Arithmetic of the outcome\<close>

text \<open>
  Claim C6. For every request, validation failures included, the outcome satisfies
  \<open>finalTotal = adjustedSubtotal + taxAmount\<close> and
  \<open>adjustedSubtotal = subtotal - discount\<close>.
\<close>

theorem outcome_arithmetic:
  "finalTotal (calculateAdjustment p)
     = adjustedSubtotal (calculateAdjustment p) + taxAmount (calculateAdjustment p) \<and>
   adjustedSubtotal (calculateAdjustment p) = subtotal p - discount (calculateAdjustment p)"
proof (cases "0 \<le> subtotal p \<and> 0 \<le> taxRate p \<and> taxRate p \<le> 1")
  case True
  then have "optimalFor applyTax (subtotal p) (targetTotal p) (taxRate p) (roundModeOrDefault p)
           (calculateAdjustment p)"
    by (intro calculateAdjustment_optimalFor) simp_all
  then show ?thesis by (simp add: optimalFor_def)
next
  case False
  then show ?thesis
    by (auto simp: calculateAdjustment_def calculateAdjustment_on_def Let_def)
qed

section \<open>Validation\<close>

text \<open>
  Claim C7. A request with \<open>subtotal < 0\<close> yields the invalid outcome with the error
  ``Subtotal cannot be negative'', discount 0, tax 0 and the subtotal echoed as adjusted
  subtotal and final total; a request with \<open>0 \<le> subtotal\<close> and a rate outside \<open>[0, 1]\<close>
  yields the same echo with the error ``Tax rate must be between 0 and 1''. In both cases
  the outcome is the same for every tax primitive the solver could be given: the primitive
  is not queried.
\<close>

theorem validation_fails_fast:
  "(subtotal p < 0 \<longrightarrow>
      (\<forall>tax. calculateAdjustment_on tax p =
         \<lparr>discount = 0, isValid = False, adjustedSubtotal = subtotal p, taxAmount = 0,
          finalTotal = subtotal p, error = Some ''Subtotal cannot be negative''\<rparr>) \<and>
      calculateAdjustment p =
         \<lparr>discount = 0, isValid = False, adjustedSubtotal = subtotal p, taxAmount = 0,
          finalTotal = subtotal p, error = Some ''Subtotal cannot be negative''\<rparr>) \<and>
   (0 \<le> subtotal p \<and> (taxRate p < 0 \<or> 1 < taxRate p) \<longrightarrow>
      (\<forall>tax. calculateAdjustment_on tax p =
         \<lparr>discount = 0, isValid = False, adjustedSubtotal = subtotal p, taxAmount = 0,
          finalTotal = subtotal p, error = Some ''Tax rate must be between 0 and 1''\<rparr>) \<and>
      calculateAdjustment p =
         \<lparr>discount = 0, isValid = False, adjustedSubtotal = subtotal p, taxAmount = 0,
          finalTotal = subtotal p, error = Some ''Tax rate must be between 0 and 1''\<rparr>)"
  by (simp add: calculateAdjustment_def calculateAdjustment_on_def Let_def)

theorem validation_fails_fast_witness:
  "calculateAdjustment
     \<lparr>subtotal = - 1, targetTotal = 100, taxRate = toDouble (1 / 10), roundMode = Some Floor\<rparr>
   = \<lparr>discount = 0, isValid = False, adjustedSubtotal = - 1, taxAmount = 0,
      finalTotal = - 1, error = Some ''Subtotal cannot be negative''\<rparr> \<and>
   calculateAdjustment
     \<lparr>subtotal = 1000, targetTotal = 1100, taxRate = 3 / 2, roundMode = Some Floor\<rparr>
   = \<lparr>discount = 0, isValid = False, adjustedSubtotal = 1000, taxAmount = 0,
      finalTotal = 1000, error = Some ''Tax rate must be between 0 and 1''\<rparr>"
proof -
  let ?p = "\<lparr>subtotal = - 1, targetTotal = 100, taxRate = toDouble (1 / 10), roundMode = Some Floor\<rparr>"
  let ?q = "\<lparr>subtotal = 1000, targetTotal = 1100, taxRate = 3 / 2, roundMode = Some Floor\<rparr>"
  have "subtotal ?p < 0" by simp
  with validation_fails_fast [of ?p]
  have p: "calculateAdjustment ?p =
         \<lparr>discount = 0, isValid = False, adjustedSubtotal = subtotal ?p, taxAmount = 0,
          finalTotal = subtotal ?p, error = Some ''Subtotal cannot be negative''\<rparr>"
    by blast
  have "0 \<le> subtotal ?q \<and> (taxRate ?q < 0 \<or> 1 < taxRate ?q)" by simp
  with validation_fails_fast [of ?q]
  have q: "calculateAdjustment ?q =
         \<lparr>discount = 0, isValid = False, adjustedSubtotal = subtotal ?q, taxAmount = 0,
          finalTotal = subtotal ?q, error = Some ''Tax rate must be between 0 and 1''\<rparr>"
    by blast
  from p q show ?thesis by simp
qed

section \<open>The worked example\<close>

text \<open>
  Claim C8. Subtotal 290000, target 315000, rate \<open>0.1\<close> and floor rounding yield the valid
  outcome with discount 3636, adjusted subtotal 286364, tax 28636 and final total 315000.
\<close>

theorem worked_example_290000:
  "calculateAdjustment
     \<lparr>subtotal = 290000, targetTotal = 315000, taxRate = toDouble (1 / 10), roundMode = Some Floor\<rparr>
   = \<lparr>discount = 3636, isValid = True, adjustedSubtotal = 286364, taxAmount = 28636,
      finalTotal = 315000, error = None\<rparr>"
  by code_simp

section \<open>Negative targets\<close>

text \<open>
  Claim C10. For a request that passes validation and has \<open>targetTotal < 0\<close> the outcome
  is invalid: its final total is non-negative, and so is \<open>calculateTotal\<close> at every
  discount of \<open>[-subtotal, subtotal]\<close>, so the sentinel \<open>-1\<close> never arises there and is
  never taken for a match, also for \<open>targetTotal = -1\<close>.
\<close>

theorem negative_target_rejected:
  assumes "0 \<le> subtotal p" "0 \<le> taxRate p" "taxRate p \<le> 1" "targetTotal p < 0"
  shows "\<not> isValid (calculateAdjustment p) \<and>
         0 \<le> finalTotal (calculateAdjustment p) \<and>
         (\<forall>d. - subtotal p \<le> d \<and> d \<le> subtotal p \<longrightarrow>
            0 \<le> calculateTotal applyTax (subtotal p) (taxRate p) (roundModeOrDefault p) d)"
proof -
  note opt = calculateAdjustment_optimalFor [OF assms(1-3), unfolded optimalFor_def]
  have "0 \<le> adjustedSubtotal (calculateAdjustment p)" using opt by simp
  then have "0 \<le> taxAmount (calculateAdjustment p)"
    using opt applyTax_nonneg [OF assms(2)] by simp
  then have fin: "0 \<le> finalTotal (calculateAdjustment p)" using opt by simp
  have "0 \<le> calculateTotal applyTax (subtotal p) (taxRate p) (roundModeOrDefault p) d"
    if "d \<le> subtotal p" for d
    using calculateTotal_nonneg [of applyTax "taxRate p" "roundModeOrDefault p" d "subtotal p"]
      applyTax_nonneg [OF assms(2)] that by blast
  with fin opt assms(4) show ?thesis by simp
qed

theorem negative_target_rejected_witness:
  "\<not> isValid (calculateAdjustment
       \<lparr>subtotal = 10, targetTotal = - 1, taxRate = toDouble (1 / 10), roundMode = Some Ceil\<rparr>) \<and>
   0 \<le> finalTotal (calculateAdjustment
       \<lparr>subtotal = 10, targetTotal = - 1, taxRate = toDouble (1 / 10), roundMode = Some Ceil\<rparr>)"
  using negative_target_rejected
    [of "\<lparr>subtotal = 10, targetTotal = - 1, taxRate = toDouble (1 / 10), roundMode = Some Ceil\<rparr>"]
  using tenth_in_range by simp

end
